theory Spec2Isabelle
  imports Complex_Main "HOL-Library.AList"
begin

section \<open>Values shared by the two scripts\<close>

text \<open>
  The repository holds two scripts: \<^verbatim>\<open>museums.py\<close> (the Harvester) and
  \<^verbatim>\<open>make_museums_map.py\<close> (the Enricher). Both keep their state in JSON files
  and talk to the outside world (a browser, web pages, the Nominatim service).
  Everything a script does beyond computing a value is written out here: an exception
  is a value of \<open>py_error\<close>, the file system and the sequence of external actions are
  a \<open>world\<close> that every function takes and returns.

  Python floats are kept abstract as the type parameter \<open>'f\<close>: no arithmetic is done on
  a coordinate, it is only parsed, stored and compared with \<open>None\<close>.
\<close>

datatype py_error =
    KeyError | IndexError | TypeError | ValueError | AttributeError | OverflowError
  | JSONDecodeError | RequestException | NoSuchElementException | WebDriverException
  | UnicodeDecodeError | RecursionError

text \<open>A parsed JSON document, as \<^verbatim>\<open>resp.json()\<close> returns it. An object is the Python
  dict the parser built, in insertion order.\<close>

datatype 'f json =
    JNull | JBool bool | JInt int | JFloat 'f | JStr string
  | JArr "'f json list" | JObj "(string \<times> 'f json) list"

text \<open>A pair \<^verbatim>\<open>(lat, lon)\<close>; \<^verbatim>\<open>(None, None)\<close> is the "not found" outcome.\<close>

type_synonym 'f coords = "'f option \<times> 'f option"

text \<open>The geocode cache: a Python dict from the raw address to a pair. A dict keeps its
  insertion order, and assigning to a present key keeps the key's place, which is what
  \<open>AList.update\<close> does.\<close>

type_synonym 'f cache = "(string \<times> 'f coords) list"

text \<open>One entry of \<^verbatim>\<open>museums.json\<close>. The Harvester writes the first four keys; the
  Enricher adds the last two. A key that is absent and a key that holds \<^verbatim>\<open>null\<close> read
  the same through \<^verbatim>\<open>item.get\<close>, so both are \<open>None\<close>.\<close>

record 'f museum =
  name :: string
  thumbnail :: "string option"
  link :: string
  location :: string
  latitude :: "'f option"
  longitude :: "'f option"

text \<open>What a run does to the outside, in order: an HTTP GET to Nominatim with its query,
  a \<^verbatim>\<open>time.sleep\<close>, a file written whole, and the Harvester's per-card console
  lines.\<close>

datatype event =
    Get string
  | Sleep rat
  | Save string string
  | LogScraped nat nat string string
  | LogError nat nat py_error

record world =
  files :: "string \<rightharpoonup> string"
  events :: "event list"

text \<open>Library behaviour that is not in the repository is a parameter: Python's
  \<^verbatim>\<open>float()\<close> on a string and on an int, whether a float is zero (for truthiness),
  whether the installed \<^verbatim>\<open>requests\<close> raises its own \<^verbatim>\<open>JSONDecodeError\<close> (a
  \<^verbatim>\<open>RequestException\<close> since version 2.27) or a plain \<^verbatim>\<open>ValueError\<close> from
  \<^verbatim>\<open>resp.json()\<close>, and \<^verbatim>\<open>json.dump\<close> / \<^verbatim>\<open>json.load\<close> on the two documents.
  A loader is \<^verbatim>\<open>json.load\<close> on the decoded text of a file: it gives the document, or
  the exception that \<^verbatim>\<open>json.load\<close> raises (\<^verbatim>\<open>json.JSONDecodeError\<close> for a text
  that is not JSON, \<^verbatim>\<open>RecursionError\<close> for one nested too deep). The two documents
  are typed as the data model has them, a list of records and a dict of pairs.\<close>

record 'f pylib =
  float_of_str :: "string \<Rightarrow> 'f option"
  float_of_int :: "int \<Rightarrow> 'f option"
  float_is_zero :: "'f \<Rightarrow> bool"
  json_error_is_request_exception :: bool
  dumps_museums :: "'f museum list \<Rightarrow> string"
  dumps_cache :: "'f cache \<Rightarrow> string"
  loads_museums :: "string \<Rightarrow> py_error + 'f museum list"
  loads_cache :: "string \<Rightarrow> py_error + 'f cache"

section \<open>make_museums_map.py\<close>

subsection \<open>Config\<close>

definition INPUT_JSON :: string where
  "INPUT_JSON = ''museums.json''"

definition CACHE_JSON :: string where
  "CACHE_JSON = ''geocode_cache.json''"

definition GEOCODE_SLEEP_SECONDS :: rat where
  "GEOCODE_SLEEP_SECONDS = 12 / 10"

definition RETRY_BACKOFF_SECONDS :: rat where
  "RETRY_BACKOFF_SECONDS = 5"

subsection \<open>Helpers\<close>

text \<open>A file holds bytes (a \<open>char\<close> is a byte). Both scripts open their files with
  \<^verbatim>\<open>encoding="utf-8"\<close>, and \<^verbatim>\<open>json.load\<close> first reads the whole file, so the
  bytes are decoded before anything is parsed. Python's decoder is strict: it refuses
  a stray or missing continuation byte, an overlong form, a surrogate and a code point
  beyond U+10FFFF.\<close>

definition continuation :: "char \<Rightarrow> bool" where
  "continuation c = (0x80 \<le> (of_char c :: nat) \<and> (of_char c :: nat) \<le> 0xBF)"

fun utf8_valid :: "string \<Rightarrow> bool" where
  "utf8_valid [] = True"
| "utf8_valid [c] = ((of_char c :: nat) < 0x80)"
| "utf8_valid [c, c1] =
     (let b = (of_char c :: nat) in
      if b < 0x80 then utf8_valid [c1]
      else 0xC2 \<le> b \<and> b \<le> 0xDF \<and> continuation c1)"
| "utf8_valid [c, c1, c2] =
     (let b = (of_char c :: nat); b1 = (of_char c1 :: nat) in
      if b < 0x80 then utf8_valid [c1, c2]
      else if 0xC2 \<le> b \<and> b \<le> 0xDF then continuation c1 \<and> utf8_valid [c2]
      else if 0xE0 \<le> b \<and> b \<le> 0xEF then
        continuation c1 \<and> continuation c2 \<and>
        (if b = 0xE0 then 0xA0 \<le> b1 else True) \<and> (if b = 0xED then b1 \<le> 0x9F else True)
      else False)"
| "utf8_valid (c # c1 # c2 # c3 # cs) =
     (let b = (of_char c :: nat); b1 = (of_char c1 :: nat) in
      if b < 0x80 then utf8_valid (c1 # c2 # c3 # cs)
      else if 0xC2 \<le> b \<and> b \<le> 0xDF then continuation c1 \<and> utf8_valid (c2 # c3 # cs)
      else if 0xE0 \<le> b \<and> b \<le> 0xEF then
        continuation c1 \<and> continuation c2 \<and>
        (if b = 0xE0 then 0xA0 \<le> b1 else True) \<and> (if b = 0xED then b1 \<le> 0x9F else True) \<and>
        utf8_valid (c3 # cs)
      else if 0xF0 \<le> b \<and> b \<le> 0xF4 then
        continuation c1 \<and> continuation c2 \<and> continuation c3 \<and>
        (if b = 0xF0 then 0x90 \<le> b1 else True) \<and> (if b = 0xF4 then b1 \<le> 0x8F else True) \<and>
        utf8_valid cs
      else False)"

text \<open>\<^verbatim>\<open>with open(path, "r", encoding="utf-8") as f: json.load(f)\<close> on a file that is
  there: a \<^verbatim>\<open>UnicodeDecodeError\<close> when the bytes are not UTF-8, else what the loader
  makes of the text. (Errors of the operating system on opening a path that exists are
  not modelled.)\<close>

definition read_json :: "(string \<Rightarrow> py_error + 'v) \<Rightarrow> string \<Rightarrow> py_error + 'v" where
  "read_json loads content =
     (if utf8_valid content then loads content else Inl UnicodeDecodeError)"

text \<open>\<^verbatim>\<open>load_json(path, default)\<close>: \<^verbatim>\<open>os.path.exists\<close> is membership in the domain
  of the file map. The handler of line 32 catches \<^verbatim>\<open>json.JSONDecodeError\<close> and nothing
  else: every other exception of the read leaves the function, and a document that was
  parsed is returned as it is.\<close>

definition load_json ::
  "(string \<Rightarrow> py_error + 'v) \<Rightarrow> (string \<rightharpoonup> string) \<Rightarrow> string \<Rightarrow> 'v \<Rightarrow> py_error + 'v" where
  "load_json loads fs path dflt =
     (case fs path of
        Some content \<Rightarrow>
          (case read_json loads content of
             Inr v \<Rightarrow> Inr v
           | Inl e \<Rightarrow> if e = JSONDecodeError then Inr dflt else Inl e)
      | None \<Rightarrow> Inr dflt)"

text \<open>\<^verbatim>\<open>save_json(path, obj)\<close>, given the dumped text: the file is overwritten whole.\<close>

definition save_json :: "string \<Rightarrow> string \<Rightarrow> world \<Rightarrow> world" where
  "save_json path content w =
     w\<lparr>files := (files w)(path \<mapsto> content), events := events w @ [Save path content]\<rparr>"

definition sleep :: "rat \<Rightarrow> world \<Rightarrow> world" where
  "sleep secs w = w\<lparr>events := events w @ [Sleep secs]\<rparr>"

subsection \<open>The resolution service\<close>

text \<open>What \<^verbatim>\<open>session.get\<close> gives: it raises a \<^verbatim>\<open>RequestException\<close> (no connection,
  timeout), or returns a response with a status code and a body; the body is \<open>None\<close>
  when it is not JSON.\<close>

datatype 'f response = Raises | Reply int "'f json option"

text \<open>The service is any function from the queries sent so far and the present query to
  a response.\<close>

type_synonym 'f service = "string list \<Rightarrow> string \<Rightarrow> 'f response"

fun gets_of :: "event list \<Rightarrow> string list" where
  "gets_of [] = []"
| "gets_of (Get q # es) = q # gets_of es"
| "gets_of (_ # es) = gets_of es"

definition session_get :: "'f service \<Rightarrow> string \<Rightarrow> world \<Rightarrow> 'f response \<times> world" where
  "session_get srv query w =
     (srv (gets_of (events w)) query, w\<lparr>events := events w @ [Get query]\<rparr>)"

text \<open>Python's \<^verbatim>\<open>not data\<close>.\<close>

fun falsy :: "'f pylib \<Rightarrow> 'f json \<Rightarrow> bool" where
  "falsy L JNull = True"
| "falsy L (JBool b) = (\<not> b)"
| "falsy L (JInt n) = (n = 0)"
| "falsy L (JFloat x) = float_is_zero L x"
| "falsy L (JStr s) = (s = [])"
| "falsy L (JArr xs) = (xs = [])"
| "falsy L (JObj kvs) = (kvs = [])"

text \<open>\<^verbatim>\<open>data[0]\<close>: the first element of a list; the first character of a string; a
  dict of a JSON document has string keys only, so the key \<open>0\<close> is missing; anything
  else is not subscriptable.\<close>

fun index0 :: "'f json \<Rightarrow> py_error + 'f json" where
  "index0 (JArr []) = Inl IndexError"
| "index0 (JArr (x # xs)) = Inr x"
| "index0 (JStr []) = Inl IndexError"
| "index0 (JStr (c # cs)) = Inr (JStr [c])"
| "index0 (JObj kvs) = Inl KeyError"
| "index0 _ = Inl TypeError"

text \<open>\<^verbatim>\<open>d["lat"]\<close>: a dict lookup; a list or a string wants an integer index.\<close>

fun getitem :: "'f json \<Rightarrow> string \<Rightarrow> py_error + 'f json" where
  "getitem (JObj kvs) k = (case map_of kvs k of Some v \<Rightarrow> Inr v | None \<Rightarrow> Inl KeyError)"
| "getitem _ k = Inl TypeError"

text \<open>\<^verbatim>\<open>float(v)\<close>.\<close>

fun py_float :: "'f pylib \<Rightarrow> 'f json \<Rightarrow> py_error + 'f" where
  "py_float L (JStr s) = (case float_of_str L s of Some x \<Rightarrow> Inr x | None \<Rightarrow> Inl ValueError)"
| "py_float L (JInt n) = (case float_of_int L n of Some x \<Rightarrow> Inr x | None \<Rightarrow> Inl OverflowError)"
| "py_float L (JBool b) =
     (case float_of_int L (if b then 1 else 0) of Some x \<Rightarrow> Inr x | None \<Rightarrow> Inl OverflowError)"
| "py_float L (JFloat x) = Inr x"
| "py_float L _ = Inl TypeError"

text \<open>Lines 69-71 of \<^verbatim>\<open>_geocode_nominatim\<close>: the two coordinates of the first
  candidate. None of the errors raised here is a \<^verbatim>\<open>RequestException\<close>.\<close>

definition first_candidate :: "'f pylib \<Rightarrow> 'f json \<Rightarrow> py_error + 'f coords" where
  "first_candidate L data =
     (case index0 data of Inl e \<Rightarrow> Inl e | Inr d0 \<Rightarrow>
      case getitem d0 ''lat'' of Inl e \<Rightarrow> Inl e | Inr latv \<Rightarrow>
      case py_float L latv of Inl e \<Rightarrow> Inl e | Inr lat \<Rightarrow>
      case index0 data of Inl e \<Rightarrow> Inl e | Inr d1 \<Rightarrow>
      case getitem d1 ''lon'' of Inl e \<Rightarrow> Inl e | Inr lonv \<Rightarrow>
      case py_float L lonv of Inl e \<Rightarrow> Inl e | Inr lon \<Rightarrow>
      Inr (Some lat, Some lon))"

text \<open>Lines 65-73: what becomes of the response that is kept. \<^verbatim>\<open>raise_for_status\<close>
  raises an \<^verbatim>\<open>HTTPError\<close> (a \<^verbatim>\<open>RequestException\<close>) for a status from 400 to 599;
  the handler turns every \<^verbatim>\<open>RequestException\<close> into \<^verbatim>\<open>(None, None)\<close> and lets
  every other exception through.\<close>

definition accept_response :: "'f pylib \<Rightarrow> 'f response \<Rightarrow> py_error + 'f coords" where
  "accept_response L resp =
     (case resp of
        Raises \<Rightarrow> Inr (None, None)
      | Reply status_code body \<Rightarrow>
          if 400 \<le> status_code \<and> status_code < 600 then Inr (None, None)
          else (case body of
                  None \<Rightarrow> if json_error_is_request_exception L then Inr (None, None)
                          else Inl JSONDecodeError
                | Some data \<Rightarrow>
                    if falsy L data then Inr (None, None) else first_candidate L data))"

text \<open>\<^verbatim>\<open>_geocode_nominatim(query, session)\<close>.\<close>

definition geocode_nominatim ::
  "'f pylib \<Rightarrow> 'f service \<Rightarrow> string \<Rightarrow> world \<Rightarrow> (py_error + 'f coords) \<times> world" where
  "geocode_nominatim L srv query w =
     (case session_get srv query w of
        (Raises, w1) \<Rightarrow> (Inr (None, None), w1)
      | (Reply status_code body, w1) \<Rightarrow>
          if status_code = 429 then
            (case session_get srv query (sleep RETRY_BACKOFF_SECONDS w1) of
               (resp, w2) \<Rightarrow> (accept_response L resp, w2))
          else (accept_response L (Reply status_code body), w1))"

text \<open>\<^verbatim>\<open>geocode_address(address, session, cache)\<close>. The dict is mutated in place in
  the source; here the new cache is returned. When an exception passes through, the
  cache has not been touched.\<close>

definition geocode_address ::
  "'f pylib \<Rightarrow> 'f service \<Rightarrow> string \<Rightarrow> 'f cache \<Rightarrow> world
     \<Rightarrow> (py_error + 'f coords) \<times> 'f cache \<times> world" where
  "geocode_address L srv address cache w =
     (if address = [] then (Inr (None, None), cache, w)
      else case map_of cache address of
        Some entry \<Rightarrow> (Inr entry, cache, w)
      | None \<Rightarrow>
         (case geocode_nominatim L srv address w of
            (Inl e, w1) \<Rightarrow> (Inl e, cache, w1)
          | (Inr coords, w1) \<Rightarrow>
             (case (if coords = (None, None)
                    then geocode_nominatim L srv (address @ '', Netherlands'') w1
                    else (Inr coords, w1)) of
                (Inl e, w2) \<Rightarrow> (Inl e, cache, w2)
              | (Inr coords', w2) \<Rightarrow>
                  let cache' = AList.update address coords' cache;
                      w3 = save_json CACHE_JSON (dumps_cache L cache') w2;
                      w4 = sleep GEOCODE_SLEEP_SECONDS w3
                  in (Inr coords', cache', w4))))"

subsection \<open>Main\<close>

text \<open>The \<^verbatim>\<open>for\<close> loop of \<^verbatim>\<open>main\<close>, lines 117-127. \<open>seen\<close> are the items already
  visited, in their final state, so that \<open>seen @ item # rest\<close> is the list
  \<^verbatim>\<open>museums\<close> that \<^verbatim>\<open>save_json(INPUT_JSON, museums)\<close> writes. The result is the
  exception that ended the run, if any, with the list and the cache as they stand.
  Lines 129-140 only hand the items that have both coordinates to the map renderer;
  they change neither list, cache nor files and are left out.\<close>

fun enrich_loop ::
  "'f pylib \<Rightarrow> 'f service \<Rightarrow> 'f museum list \<Rightarrow> 'f museum list \<Rightarrow> 'f cache \<Rightarrow> world
     \<Rightarrow> py_error option \<times> 'f museum list \<times> 'f cache \<times> world" where
  "enrich_loop L srv seen [] cache w = (None, seen, cache, w)"
| "enrich_loop L srv seen (item # rest) cache w =
     (if latitude item = None \<or> longitude item = None then
        (case geocode_address L srv (location item) cache w of
           (Inl e, cache', w') \<Rightarrow> (Some e, seen @ item # rest, cache', w')
         | (Inr (lat, lon), cache', w') \<Rightarrow>
             let item' = item\<lparr>latitude := lat, longitude := lon\<rparr>;
                 w'' = save_json INPUT_JSON (dumps_museums L (seen @ item' # rest)) w'
             in enrich_loop L srv (seen @ [item']) rest cache' w'')
      else enrich_loop L srv (seen @ [item]) rest cache w)"

text \<open>\<^verbatim>\<open>main()\<close> up to the end of the loop: an empty or missing record list ends the
  run before the cache is read. Nothing in \<^verbatim>\<open>main\<close> catches an exception, so one that
  leaves \<^verbatim>\<open>load_json\<close> ends the run there, with what has been loaded so far.\<close>

definition main ::
  "'f pylib \<Rightarrow> 'f service \<Rightarrow> world \<Rightarrow> py_error option \<times> 'f museum list \<times> 'f cache \<times> world" where
  "main L srv w =
     (case load_json (loads_museums L) (files w) INPUT_JSON [] of
        Inl e \<Rightarrow> (Some e, [], [], w)
      | Inr museums \<Rightarrow>
          if museums = [] then (None, [], [], w)
          else
            (case load_json (loads_cache L) (files w) CACHE_JSON [] of
               Inl e \<Rightarrow> (Some e, museums, [], w)
             | Inr geocode_cache \<Rightarrow> enrich_loop L srv [] museums geocode_cache w))"

section \<open>museums.py\<close>

subsection \<open>The "Laad meer" loop\<close>

text \<open>One pass through the body of the \<^verbatim>\<open>while True\<close> loop, lines 32-45, as the
  browser decides it: the button is found and clicked; the button is not there
  (\<^verbatim>\<open>NoSuchElementException\<close>); the click is obstructed
  (\<^verbatim>\<open>ElementClickInterceptedException\<close>); or another exception is raised, which no
  handler of the loop catches.\<close>

datatype click_outcome = Clicked | NoSuchElement | ClickIntercepted | Crashed py_error

text \<open>The loop has no counter and no other exit than the two below, so it is a partial
  function: \<open>None\<close> is a loop that never ends. \<open>browser n\<close> is the outcome of pass
  \<open>n\<close>; the result holds the uncaught exception, if any, and the number of passes
  before the last one.\<close>

partial_function (option) load_more_loop ::
  "(nat \<Rightarrow> click_outcome) \<Rightarrow> nat \<Rightarrow> world \<Rightarrow> (py_error option \<times> nat \<times> world) option" where
  "load_more_loop browser n w =
     (case browser n of
        Clicked \<Rightarrow> load_more_loop browser (Suc n) (sleep 3 w)
      | NoSuchElement \<Rightarrow> Some (None, n, w)
      | ClickIntercepted \<Rightarrow> load_more_loop browser (Suc n) (sleep 2 w)
      | Crashed e \<Rightarrow> Some (Some e, n, w))"

subsection \<open>Scraping the cards\<close>

text \<open>What the script reads of a card of the overview: its first \<^verbatim>\<open>a\<close> element
  (\<open>None\<close> when there is none, else its \<^verbatim>\<open>href\<close> attribute, itself \<open>None\<close> when
  the attribute is missing) and its first \<^verbatim>\<open>img\<close> element with its \<^verbatim>\<open>src\<close>.\<close>

record card =
  anchor_href :: "string option option"
  img_src :: "string option option"

text \<open>What the script reads of a detail page: the stripped text of its \<^verbatim>\<open>h1\<close>, and the
  text of \<^verbatim>\<open>section.practical-info address\<close> once its \<^verbatim>\<open>a\<close>, \<^verbatim>\<open>svg\<close>,
  \<^verbatim>\<open>strong\<close> and \<^verbatim>\<open>span\<close> descendants are removed; each is \<open>None\<close> when the
  page has no such element. The parser (\<^verbatim>\<open>html.parser\<close>) accepts any markup.\<close>

record page =
  h1_text :: "string option"
  address_text :: "string option"

text \<open>\<^verbatim>\<open>requests.get(link)\<close>: \<open>None\<close> when it raises.\<close>

type_synonym web = "string \<Rightarrow> page option"

definition output_file :: string where
  "output_file = ''museums.json''"

definition startswith_slash :: "string \<Rightarrow> bool" where
  "startswith_slash s = (case s of [] \<Rightarrow> False | c # cs \<Rightarrow> c = CHR ''/'')"

text \<open>Line 68: a link that starts with a slash is completed with the site.\<close>

definition absolute_link :: "string \<Rightarrow> string" where
  "absolute_link partial_link =
     (if startswith_slash partial_link then ''https://www.museum.nl'' @ partial_link
      else partial_link)"

text \<open>The body of the \<^verbatim>\<open>try\<close> of the per-card loop up to \<^verbatim>\<open>museum_data\<close>, lines
  65-96, in the order in which the steps can raise: no \<^verbatim>\<open>a\<close> element in the card
  (\<^verbatim>\<open>find_element\<close> raises), no \<^verbatim>\<open>href\<close> on it (\<^verbatim>\<open>None.startswith\<close>), the
  request for the detail page raises, no \<^verbatim>\<open>img\<close> element in the card. A page
  without \<^verbatim>\<open>h1\<close> or without address block raises nothing: lines 76 and 89 put
  \<^verbatim>\<open>"Unknown"\<close> in its place.\<close>

definition scrape_card :: "web \<Rightarrow> card \<Rightarrow> py_error + 'f museum" where
  "scrape_card web c =
     (case anchor_href c of
        None \<Rightarrow> Inl NoSuchElementException
      | Some None \<Rightarrow> Inl AttributeError
      | Some (Some partial_link) \<Rightarrow>
          let lnk = absolute_link partial_link
          in (case web lnk of
                None \<Rightarrow> Inl RequestException
              | Some soup \<Rightarrow>
                  let nm = (case h1_text soup of Some t \<Rightarrow> t | None \<Rightarrow> ''Unknown'')
                  in (case img_src c of
                        None \<Rightarrow> Inl NoSuchElementException
                      | Some src \<Rightarrow>
                          let loc = (case address_text soup of
                                       Some a \<Rightarrow> a | None \<Rightarrow> ''Unknown'')
                          in Inr \<lparr>name = nm, thumbnail = src, link = lnk, location = loc,
                                  latitude = None, longitude = None\<rparr>)))"

text \<open>The \<^verbatim>\<open>for\<close> loop, lines 63-107: \<^verbatim>\<open>except Exception\<close> catches whatever the
  body raised, prints a line and goes on to the next card. Writing the file is taken
  to succeed.\<close>

fun scrape_cards ::
  "'f pylib \<Rightarrow> web \<Rightarrow> nat \<Rightarrow> nat \<Rightarrow> card list \<Rightarrow> 'f museum list \<Rightarrow> world
     \<Rightarrow> 'f museum list \<times> world" where
  "scrape_cards L web i n_cards [] museums w = (museums, w)"
| "scrape_cards L web i n_cards (c # cards) museums w =
     (case scrape_card web c of
        Inl e \<Rightarrow>
          scrape_cards L web (Suc i) n_cards cards museums
            (w\<lparr>events := events w @ [LogError i n_cards e]\<rparr>)
      | Inr museum_data \<Rightarrow>
          let museums' = museums @ [museum_data];
              w' = save_json output_file (dumps_museums L museums') w;
              w'' = w'\<lparr>events := events w' @
                       [LogScraped i n_cards (name museum_data) (location museum_data)]\<rparr>
          in scrape_cards L web (Suc i) n_cards cards museums' w'')"

text \<open>Lines 50-59: the records of an earlier run, or the empty list. The code is that
  of \<^verbatim>\<open>load_json\<close> written out in place, with the same handler.\<close>

definition resume_load :: "'f pylib \<Rightarrow> (string \<rightharpoonup> string) \<Rightarrow> py_error + 'f museum list" where
  "resume_load L fs =
     (case fs output_file of
        Some content \<Rightarrow>
          (case read_json (loads_museums L) content of
             Inr v \<Rightarrow> Inr v
           | Inl e \<Rightarrow> if e = JSONDecodeError then Inr [] else Inl e)
      | None \<Rightarrow> Inr [])"

text \<open>The whole script: the page is opened, the loop runs, the cards that the browser
  then shows are scraped. An exception out of the loop or out of the resume code ends
  the script.\<close>

definition harvest ::
  "'f pylib \<Rightarrow> (nat \<Rightarrow> click_outcome) \<Rightarrow> card list \<Rightarrow> web \<Rightarrow> world
     \<Rightarrow> (py_error option \<times> 'f museum list \<times> world) option" where
  "harvest L browser cards web w =
     (case load_more_loop browser 0 (sleep 3 w) of
        None \<Rightarrow> None
      | Some (Some e, n, w1) \<Rightarrow> Some (Some e, [], w1)
      | Some (None, n, w1) \<Rightarrow>
          (case resume_load L (files w1) of
             Inl e \<Rightarrow> Some (Some e, [], w1)
           | Inr museums \<Rightarrow>
               (case scrape_cards L web 1 (length cards) cards museums w1 of
                  (museums', w2) \<Rightarrow> Some (None, museums', w2))))"

section \<open>Predicates of the statements\<close>

text \<open>The test of line 123: the item is sent to \<^verbatim>\<open>geocode_address\<close>.\<close>

definition needs_geocoding :: "'f museum \<Rightarrow> bool" where
  "needs_geocoding item = (latitude item = None \<or> longitude item = None)"

text \<open>An item that another run would leave as it is: it has both coordinates, or it has
  no address and no coordinates, or the cache holds its pair under its address.\<close>

definition settled :: "'f cache \<Rightarrow> 'f museum \<Rightarrow> bool" where
  "settled cache item =
     (if needs_geocoding item then
        (if location item = [] then latitude item = None \<and> longitude item = None
         else map_of cache (location item) = Some (latitude item, longitude item))
      else True)"

text \<open>The invariant of the data model: both coordinates or none.\<close>

definition pair_ok :: "'f coords \<Rightarrow> bool" where
  "pair_ok c = ((fst c = None) = (snd c = None))"

definition coords_ok :: "'f museum \<Rightarrow> bool" where
  "coords_ok m = ((latitude m = None) = (longitude m = None))"

definition cache_ok :: "'f cache \<Rightarrow> bool" where
  "cache_ok cache = list_all (\<lambda>(k, v). pair_ok v) cache"

text \<open>A response from which lines 65-68 and the handler of line 72 get no candidate: the
  request raised, the status is an error status, the body is not JSON (where the
  library raises a \<^verbatim>\<open>RequestException\<close> for that), or the parsed body is falsy.\<close>

definition no_result :: "'f pylib \<Rightarrow> 'f response \<Rightarrow> bool" where
  "no_result L resp =
     (case resp of
        Raises \<Rightarrow> True
      | Reply status_code body \<Rightarrow>
          (400 \<le> status_code \<and> status_code < 600) \<or>
          (case body of None \<Rightarrow> json_error_is_request_exception L | Some data \<Rightarrow> falsy L data))"

text \<open>What can be seen of a run besides the files it leaves: the exception, the records,
  the cache and the sequence of external actions.\<close>

definition outcome ::
  "py_error option \<times> 'f museum list \<times> 'f cache \<times> world
     \<Rightarrow> py_error option \<times> 'f museum list \<times> 'f cache \<times> event list" where
  "outcome r = (case r of (e, ms, c, w) \<Rightarrow> (e, ms, c, events w))"

text \<open>The response that \<^verbatim>\<open>_geocode_nominatim\<close> keeps for a query: the first one, or
  the second one when the first had status 429.\<close>

definition kept_response :: "'f service \<Rightarrow> string \<Rightarrow> world \<Rightarrow> 'f response" where
  "kept_response srv q w =
     (case srv (gets_of (events w)) q of
        Raises \<Rightarrow> Raises
      | Reply status_code body \<Rightarrow>
          if status_code = 429 then srv (gets_of (events w) @ [q]) q
          else Reply status_code body)"


section \<open>Test doubles\<close>

text \<open>Concrete stand-ins for the library and the outside world, used where a statement
  is evaluated on an input. Floats are rationals here.\<close>

definition demo_museum :: "rat museum" where
  "demo_museum =
     \<lparr>name = ''A Museum'', thumbnail = None, link = ''https://www.museum.nl/a'',
      location = ''Main St 1'', latitude = None, longitude = None\<rparr>"

definition demo_lib :: "rat pylib" where
  "demo_lib =
     \<lparr>float_of_str = (\<lambda>s. if s = ''52.1'' then Some (521 / 10)
                           else if s = ''5.2'' then Some (52 / 10) else None),
      float_of_int = (\<lambda>n. Some (of_int n)),
      float_is_zero = (\<lambda>x. x = 0),
      json_error_is_request_exception = True,
      dumps_museums = (\<lambda>ms. concat (map (\<lambda>m. name m @ ''@'' @ location m @
                           (if latitude m = None then ''-'' else ''+'') @
                           (if longitude m = None then ''-'' else ''+'') @ '';'') ms)),
      dumps_cache = (\<lambda>c. concat (map (\<lambda>(k, v). k @
                           (if fst v = None then ''-'' else ''+'') @
                           (if snd v = None then ''-'' else ''+'') @ '';'') c)),
      loads_museums = (\<lambda>s. if s = ''[A Museum]'' then Inr [demo_museum]
                            else Inl JSONDecodeError),
      loads_cache = (\<lambda>s. if s = ''{}'' then Inr [] else Inl JSONDecodeError)\<rparr>"

definition found_body :: "rat json" where
  "found_body = JArr [JObj [(''lat'', JStr ''52.1''), (''lon'', JStr ''5.2'')]]"

definition empty_world :: world where
  "empty_world = \<lparr>files = Map.empty, events = []\<rparr>"

text \<open>A record file with one record and no cache file; the same with a cache file that
  is not JSON; the same with a cache file that was cut in the middle of a character
  (the first byte of a two-byte UTF-8 sequence is its last byte).\<close>

definition demo_world :: world where
  "demo_world = \<lparr>files = [''museums.json'' \<mapsto> ''[A Museum]''], events = []\<rparr>"

definition corrupt_world :: world where
  "corrupt_world =
     \<lparr>files = [''museums.json'' \<mapsto> ''[A Museum]'', ''geocode_cache.json'' \<mapsto> ''{Main St''],
      events = []\<rparr>"

definition cut_cache :: string where
  "cut_cache = ''{M'' @ [CHR 0xC3]"

definition undecodable_world :: world where
  "undecodable_world =
     \<lparr>files = [''museums.json'' \<mapsto> ''[A Museum]'', ''geocode_cache.json'' \<mapsto> cut_cache],
      events = []\<rparr>"

text \<open>A browser in which the click is obstructed five times before the button is gone,
  and a card with link and image whose detail page has neither title nor address.\<close>

definition obstructed_five :: "nat \<Rightarrow> click_outcome" where
  "obstructed_five k = (if k < 5 then ClickIntercepted else NoSuchElement)"




section \<open>Properties of the Enricher\<close>

lemma gets_of_append: "gets_of (xs @ ys) = gets_of xs @ gets_of ys"
  by (induction xs rule: gets_of.induct) simp_all

subsection \<open>One resolution attempt\<close>

text \<open>The three ways through \<^verbatim>\<open>_geocode_nominatim\<close>, with the events each
  leaves behind.\<close>

lemma geocode_nominatim_cases:
  "geocode_nominatim L srv q w =
     (case srv (gets_of (events w)) q of
        Reply status_code body \<Rightarrow>
          if status_code = 429 then
            (accept_response L (srv (gets_of (events w) @ [q]) q),
             w\<lparr>events := events w @ [Get q, Sleep RETRY_BACKOFF_SECONDS, Get q]\<rparr>)
          else (accept_response L (Reply status_code body), w\<lparr>events := events w @ [Get q]\<rparr>)
      | Raises \<Rightarrow> (Inr (None, None), w\<lparr>events := events w @ [Get q]\<rparr>))"
  by (simp add: geocode_nominatim_def session_get_def sleep_def gets_of_append
      split: response.splits)

lemma geocode_nominatim_world:
  assumes "geocode_nominatim L srv q w = (r, w1)"
  shows "files w1 = files w"
    and "\<exists>k. (k = 1 \<or> k = 2) \<and> gets_of (events w1) = gets_of (events w) @ replicate k q"
    and "\<exists>evs. events w1 = events w @ Get q # evs"
proof -
  have w1: "w1 = w\<lparr>events := events w @ [Get q]\<rparr> \<or>
            w1 = w\<lparr>events := events w @ [Get q, Sleep RETRY_BACKOFF_SECONDS, Get q]\<rparr>"
    using assms by (auto simp: geocode_nominatim_cases split: response.splits if_splits)
  then show "files w1 = files w" by auto
  from w1 show "\<exists>k. (k = 1 \<or> k = 2) \<and> gets_of (events w1) = gets_of (events w) @ replicate k q"
  proof
    assume "w1 = w\<lparr>events := events w @ [Get q]\<rparr>"
    then have "gets_of (events w1) = gets_of (events w) @ replicate 1 q"
      by (simp add: gets_of_append)
    then show ?thesis by blast
  next
    assume "w1 = w\<lparr>events := events w @ [Get q, Sleep RETRY_BACKOFF_SECONDS, Get q]\<rparr>"
    then have "gets_of (events w1) = gets_of (events w) @ replicate 2 q"
      by (simp add: gets_of_append numeral_2_eq_2)
    then show ?thesis by blast
  qed
  from w1 show "\<exists>evs. events w1 = events w @ Get q # evs" by auto
qed

lemma accept_response_candidate:
  assumes "float_of_str L a = Some x" and "float_of_str L b = Some y"
    and "\<not> (400 \<le> s \<and> s < 600)"
  shows "accept_response L
           (Reply s (Some (JArr (JObj [(''lat'', JStr a), (''lon'', JStr b)] # others))))
         = Inr (Some x, Some y)"
  using assms by (simp add: accept_response_def first_candidate_def)

lemma accept_response_failure:
  "accept_response L Raises = Inr (None, None)"
  "400 \<le> s \<Longrightarrow> s < 600 \<Longrightarrow> accept_response L (Reply s body) = Inr (None, None)"
  "\<not> (400 \<le> s \<and> s < 600) \<Longrightarrow> accept_response L (Reply s (Some (JArr []))) = Inr (None, None)"
  by (simp_all add: accept_response_def)

text \<open>
  C4. When the service answers a query with status 429, the Enricher sleeps
  \<open>RETRY_BACKOFF_SECONDS\<close> and sends the same request once more: the events of the
  attempt are exactly GET, sleep, GET. The second response is the one that is
  accepted, whatever it is: the result of the attempt is what lines 65-73 make of it
  (\<open>accept_response\<close>), with no third request, also when the second response is a
  429 again. In particular a throttling response followed by a response with a
  candidate yields that candidate's coordinates; followed by an empty list, a raised
  request exception or an error status, it yields \<^verbatim>\<open>(None, None)\<close>.
\<close>

theorem throttle_retry_once:
  assumes "srv (gets_of (events w)) q = Reply 429 body"
  shows "geocode_nominatim L srv q w =
           (accept_response L (srv (gets_of (events w) @ [q]) q),
            w\<lparr>events := events w @ [Get q, Sleep RETRY_BACKOFF_SECONDS, Get q]\<rparr>)
         \<and> (\<forall>a b x y others.
               srv (gets_of (events w) @ [q]) q =
                 Reply 200 (Some (JArr (JObj [(''lat'', JStr a), (''lon'', JStr b)] # others)))
               \<and> float_of_str L a = Some x \<and> float_of_str L b = Some y
               \<longrightarrow> fst (geocode_nominatim L srv q w) = Inr (Some x, Some y))
         \<and> (srv (gets_of (events w) @ [q]) q = Reply 200 (Some (JArr []))
               \<longrightarrow> fst (geocode_nominatim L srv q w) = Inr (None, None))
         \<and> (srv (gets_of (events w) @ [q]) q = Raises
               \<or> (\<exists>s b. srv (gets_of (events w) @ [q]) q = Reply s b \<and> 400 \<le> s \<and> s < 600)
               \<longrightarrow> fst (geocode_nominatim L srv q w) = Inr (None, None))"
proof -
  have run: "geocode_nominatim L srv q w =
           (accept_response L (srv (gets_of (events w) @ [q]) q),
            w\<lparr>events := events w @ [Get q, Sleep RETRY_BACKOFF_SECONDS, Get q]\<rparr>)"
    using assms by (simp add: geocode_nominatim_cases)
  show ?thesis
    unfolding run by (auto simp: accept_response_candidate accept_response_failure)
qed

theorem throttle_retry_once_witness:
  "(\<lambda>h q. if h = [] then Reply 429 None else Reply 200 (Some found_body)) [] ''Main St 1''
     = Reply 429 None \<and>
   geocode_nominatim demo_lib
     (\<lambda>h q. if h = [] then Reply 429 None else Reply 200 (Some found_body))
     ''Main St 1'' empty_world
   = (Inr (Some (521 / 10), Some (26 / 5)),
      \<lparr>files = Map.empty,
       events = [Get ''Main St 1'', Sleep 5, Get ''Main St 1'']\<rparr>)"
  using throttle_retry_once[of
      "\<lambda>h q. if h = [] then Reply 429 None else Reply 200 (Some found_body)"
      empty_world "''Main St 1''" None demo_lib]
  by (simp add: empty_world_def found_body_def demo_lib_def accept_response_def
      first_candidate_def RETRY_BACKOFF_SECONDS_def)

subsection \<open>Looking an address up\<close>

text \<open>
  C10. An empty address is answered with \<^verbatim>\<open>(None, None)\<close> at once, whatever the
  cache holds (also an entry under the empty string): no request is sent, nothing is
  written, and the cache and the world (files and external actions) are returned as
  they were.
\<close>

theorem geocode_address_empty:
  "geocode_address L srv [] cache w = (Inr (None, None), cache, w)"
  by (simp add: geocode_address_def)

theorem geocode_address_empty_witness:
  "geocode_address demo_lib (\<lambda>h q. Reply 200 (Some found_body)) []
     [('''', (Some 1, Some 2))] empty_world
   = (Inr (None, None), [('''', (Some 1, Some 2))], empty_world)"
  using geocode_address_empty[of demo_lib "\<lambda>h q. Reply 200 (Some found_body)"
      "[('''', (Some 1, Some 2))]" empty_world]
  by simp

text \<open>
  C2. For a non-empty address that has an entry in the cache,
  \<^verbatim>\<open>geocode_address\<close> returns exactly that entry; the cache and the world are
  unchanged, so no request is sent to the resolution service (and nothing is slept or
  saved).
\<close>

theorem geocode_address_hit:
  assumes "address \<noteq> []" and "map_of cache address = Some entry"
  shows "geocode_address L srv address cache w = (Inr entry, cache, w)"
  using assms by (simp add: geocode_address_def)

theorem geocode_address_hit_witness:
  "''Main St 1'' \<noteq> [] \<and>
   map_of [(''Main St 1'', (Some (521 / 10 :: rat), Some (26 / 5 :: rat)))] ''Main St 1''
     = Some (Some (521 / 10), Some (26 / 5)) \<and>
   geocode_address demo_lib (\<lambda>h q. Raises) ''Main St 1''
     [(''Main St 1'', (Some (521 / 10), Some (26 / 5)))] empty_world
   = (Inr (Some (521 / 10), Some (26 / 5)),
      [(''Main St 1'', (Some (521 / 10), Some (26 / 5)))], empty_world)"
  using geocode_address_hit[of "''Main St 1''"
      "[(''Main St 1'', (Some (521 / 10 :: rat), Some (26 / 5 :: rat)))]"
      "(Some (521 / 10), Some (26 / 5))" demo_lib "\<lambda>h q. Raises" empty_world]
  by simp

subsection \<open>A cache miss\<close>

lemma update_miss: "map_of cache a = None \<Longrightarrow> AList.update a v cache = cache @ [(a, v)]"
  by (induction cache) (auto split: if_splits)

lemma geocode_address_miss_run:
  assumes ne: "address \<noteq> []" and miss: "map_of cache address = None"
    and raw: "geocode_nominatim L srv address w = (Inr raw, w1)"
    and alt: "raw = (None, None) \<Longrightarrow>
              geocode_nominatim L srv (address @ '', Netherlands'') w1 = (Inr coords, w2)"
    and same: "raw \<noteq> (None, None) \<Longrightarrow> coords = raw \<and> w2 = w1"
  shows "geocode_address L srv address cache w =
           (Inr coords, cache @ [(address, coords)],
            sleep GEOCODE_SLEEP_SECONDS
              (save_json CACHE_JSON (dumps_cache L (cache @ [(address, coords)])) w2))"
proof (cases "raw = (None, None)")
  case True
  with ne miss raw alt[OF True] show ?thesis
    by (simp add: geocode_address_def update_miss Let_def)
next
  case False
  with ne miss raw same[OF False] show ?thesis
    by (simp add: geocode_address_def update_miss Let_def)
qed

text \<open>
  C3. On a cache miss for a non-empty address, where the attempt with the raw address
  returns \<open>raw\<close> and, in case \<open>raw\<close> is \<^verbatim>\<open>(None, None)\<close>, the attempt with the
  address followed by \<^verbatim>\<open>", Netherlands"\<close> returns \<open>fallback\<close>:
  \<^verbatim>\<open>geocode_address\<close> returns. Its requests are first those of the raw attempt (one,
  or two when throttled), all with the raw address, and then, if and only if \<open>raw\<close>
  is \<^verbatim>\<open>(None, None)\<close>, those of one attempt with the qualified address. The final
  outcome is stored under the raw address as a new last entry of the cache, the cache
  file holds the dump of that cache, and the save (followed by the fixed sleep) is the
  last thing done before the function returns.
\<close>

theorem geocode_address_miss:
  assumes ne: "address \<noteq> []" and miss: "map_of cache address = None"
    and raw: "geocode_nominatim L srv address w = (Inr raw, w1)"
    and alt: "raw = (None, None) \<longrightarrow>
              fst (geocode_nominatim L srv (address @ '', Netherlands'') w1) = Inr fallback"
  shows "\<exists>cache' w' k1 k2 evs.
           geocode_address L srv address cache w =
             (Inr (if raw = (None, None) then fallback else raw), cache', w')
         \<and> (k1 = 1 \<or> k1 = 2) \<and> (k2 = 1 \<or> k2 = 2)
         \<and> gets_of (events w') = gets_of (events w) @ replicate k1 address @
              (if raw = (None, None) then replicate k2 (address @ '', Netherlands'') else [])
         \<and> cache' = cache @ [(address, if raw = (None, None) then fallback else raw)]
         \<and> map_of cache' address = Some (if raw = (None, None) then fallback else raw)
         \<and> files w' CACHE_JSON = Some (dumps_cache L cache')
         \<and> events w' = events w @ Get address # evs @
              [Save CACHE_JSON (dumps_cache L cache'), Sleep GEOCODE_SLEEP_SECONDS]"
proof -
  from geocode_nominatim_world[OF raw] obtain k1 evs1 where
    k1: "k1 = 1 \<or> k1 = 2" "gets_of (events w1) = gets_of (events w) @ replicate k1 address"
    and evs1: "events w1 = events w @ Get address # evs1" by blast
  show ?thesis
  proof (cases "raw = (None, None)")
    case True
    obtain r2 w2 where r2: "geocode_nominatim L srv (address @ '', Netherlands'') w1 = (r2, w2)"
      by (cases "geocode_nominatim L srv (address @ '', Netherlands'') w1")
    with alt True have r2': "r2 = Inr fallback" by simp
    from geocode_nominatim_world[OF r2] obtain k2 evs2 where
      k2: "k2 = 1 \<or> k2 = 2"
        "gets_of (events w2) = gets_of (events w1) @ replicate k2 (address @ '', Netherlands'')"
      and evs2: "events w2 = events w1 @ Get (address @ '', Netherlands'') # evs2" by blast
    let ?c = "cache @ [(address, fallback)]"
    let ?w = "sleep GEOCODE_SLEEP_SECONDS (save_json CACHE_JSON (dumps_cache L ?c) w2)"
    have run: "geocode_address L srv address cache w = (Inr fallback, ?c, ?w)"
      by (rule geocode_address_miss_run[OF ne miss raw]) (use True r2 r2' in simp_all)
    have g: "gets_of (events ?w) = gets_of (events w) @ replicate k1 address @
               replicate k2 (address @ '', Netherlands'')"
      using k1 k2 by (simp add: sleep_def save_json_def gets_of_append)
    have e: "events ?w = events w @ Get address #
               (evs1 @ Get (address @ '', Netherlands'') # evs2) @
               [Save CACHE_JSON (dumps_cache L ?c), Sleep GEOCODE_SLEEP_SECONDS]"
      using evs1 evs2 by (simp add: sleep_def save_json_def)
    have f: "files ?w CACHE_JSON = Some (dumps_cache L ?c)"
      by (simp add: sleep_def save_json_def)
    have m: "map_of ?c address = Some fallback"
      using miss by (simp add: map_add_def)
    show ?thesis using True run k1(1) k2(1) g e f m by force
  next
    case False
    let ?c = "cache @ [(address, raw)]"
    let ?w = "sleep GEOCODE_SLEEP_SECONDS (save_json CACHE_JSON (dumps_cache L ?c) w1)"
    have run: "geocode_address L srv address cache w = (Inr raw, ?c, ?w)"
      by (rule geocode_address_miss_run[OF ne miss raw]) (use False in simp_all)
    have g: "gets_of (events ?w) = gets_of (events w) @ replicate k1 address"
      using k1 by (simp add: sleep_def save_json_def gets_of_append)
    have e: "events ?w = events w @ Get address # evs1 @
               [Save CACHE_JSON (dumps_cache L ?c), Sleep GEOCODE_SLEEP_SECONDS]"
      using evs1 by (simp add: sleep_def save_json_def)
    have f: "files ?w CACHE_JSON = Some (dumps_cache L ?c)"
      by (simp add: sleep_def save_json_def)
    have m: "map_of ?c address = Some raw"
      using miss by (simp add: map_add_def)
    have "(1::nat) = 1 \<or> (1::nat) = 2" by simp
    then show ?thesis using False run k1(1) g e f m by force
  qed
qed

theorem geocode_address_miss_witness:
  "''Main St 1'' \<noteq> [] \<and> map_of ([] :: rat cache) ''Main St 1'' = None \<and>
   geocode_nominatim demo_lib
     (\<lambda>h q. if q = ''Main St 1'' then Reply 200 (Some (JArr [])) else Reply 200 (Some found_body))
     ''Main St 1'' empty_world
   = (Inr (None, None), \<lparr>files = Map.empty, events = [Get ''Main St 1'']\<rparr>) \<and>
   geocode_address demo_lib
     (\<lambda>h q. if q = ''Main St 1'' then Reply 200 (Some (JArr [])) else Reply 200 (Some found_body))
     ''Main St 1'' [] empty_world
   = (Inr (Some (521 / 10), Some (26 / 5)),
      [(''Main St 1'', (Some (521 / 10), Some (26 / 5)))],
      \<lparr>files = [''geocode_cache.json'' \<mapsto> ''Main St 1++;''],
       events = [Get ''Main St 1'', Get ''Main St 1, Netherlands'',
                 Save ''geocode_cache.json'' ''Main St 1++;'', Sleep (12 / 10)]\<rparr>)"
proof -
  let ?srv = "\<lambda>(h :: string list) q. if q = ''Main St 1'' then Reply 200 (Some (JArr []))
                 else Reply 200 (Some found_body)"
  let ?w1 = "\<lparr>files = Map.empty, events = [Get ''Main St 1'']\<rparr>"
  have raw: "geocode_nominatim demo_lib ?srv ''Main St 1'' empty_world = (Inr (None, None), ?w1)"
    by (simp add: geocode_nominatim_cases empty_world_def accept_response_def)
  have alt: "(None, None) = (None :: rat option, None :: rat option) \<longrightarrow>
             fst (geocode_nominatim demo_lib ?srv (''Main St 1'' @ '', Netherlands'') ?w1)
               = Inr (Some (521 / 10), Some (26 / 5))"
    by (simp add: geocode_nominatim_cases accept_response_def first_candidate_def
        found_body_def demo_lib_def)
  from geocode_address_miss[of "''Main St 1''" "[]" demo_lib ?srv empty_world
      "(None, None)" ?w1 "(Some (521 / 10), Some (26 / 5))", OF _ _ raw alt]
  have "fst (geocode_address demo_lib ?srv ''Main St 1'' [] empty_world)
          = Inr (Some (521 / 10), Some (26 / 5))"
    by auto
  then show ?thesis
    using raw
    by (simp add: geocode_address_def geocode_nominatim_cases accept_response_def
        first_candidate_def found_body_def demo_lib_def empty_world_def save_json_def
        sleep_def CACHE_JSON_def GEOCODE_SLEEP_SECONDS_def)
qed

subsection \<open>The loop over the records\<close>

lemma geocode_address_mono:
  assumes "geocode_address L srv a cache w = (r, cache', w')"
    and "map_of cache k = Some v"
  shows "map_of cache' k = Some v"
proof (cases "a = []")
  case True
  with assms show ?thesis by (simp add: geocode_address_def)
next
  case ne: False
  show ?thesis
  proof (cases "map_of cache a")
    case (Some entry)
    with assms ne show ?thesis by (simp add: geocode_address_def)
  next
    case None
    with assms(2) have "k \<noteq> a" by auto
    then have "\<And>c. map_of (AList.update a c cache) k = Some v"
      using assms(2) by (simp add: update_conv')
    with assms(1) None ne show ?thesis
      using assms(2)
      by (auto simp: geocode_address_def Let_def split: prod.splits sum.splits if_splits)
  qed
qed

lemma geocode_address_settles:
  assumes "geocode_address L srv a cache w = (Inr c, cache', w')"
  shows "if a = [] then c = (None, None) else map_of cache' a = Some c"
  using assms
  by (auto simp: geocode_address_def Let_def update_conv'
      split: prod.splits sum.splits if_splits option.splits)

lemma geocode_address_settled:
  assumes "settled cache item" and "needs_geocoding item"
  shows "geocode_address L srv (location item) cache w
           = (Inr (latitude item, longitude item), cache, w)"
  using assms by (auto simp: settled_def geocode_address_def)

lemma settled_mono:
  assumes "settled cache x"
    and "\<And>k v. map_of cache k = Some v \<Longrightarrow> map_of cache' k = Some v"
  shows "settled cache' x"
  using assms by (auto simp: settled_def split: if_splits)

lemma enrich_loop_skip:
  assumes "\<not> needs_geocoding item"
  shows "enrich_loop L srv seen (item # rest) cache w
           = enrich_loop L srv (seen @ [item]) rest cache w"
  using assms by (auto simp: needs_geocoding_def)

lemma enrich_loop_step:
  assumes "needs_geocoding item"
    and "geocode_address L srv (location item) cache w = (Inr (lat, lon), cache', w')"
  shows "enrich_loop L srv seen (item # rest) cache w
           = enrich_loop L srv (seen @ [item\<lparr>latitude := lat, longitude := lon\<rparr>]) rest cache'
               (save_json INPUT_JSON
                  (dumps_museums L (seen @ item\<lparr>latitude := lat, longitude := lon\<rparr> # rest)) w')"
  using assms by (auto simp: needs_geocoding_def Let_def)

lemma enrich_loop_raise:
  assumes "needs_geocoding item"
    and "geocode_address L srv (location item) cache w = (Inl e, cache', w')"
  shows "enrich_loop L srv seen (item # rest) cache w = (Some e, seen @ item # rest, cache', w')"
  using assms by (auto simp: needs_geocoding_def)

lemma gets_of_saves: "gets_of (replicate n (Save p c)) = []"
  by (induction n) simp_all

lemma enrich_loop_settles:
  assumes "enrich_loop L srv seen todo cache w = (None, ms1, c1, w1)"
    and "\<forall>x\<in>set seen. settled cache x"
  shows "\<forall>x\<in>set ms1. settled c1 x"
  using assms
proof (induction todo arbitrary: seen cache w)
  case Nil
  then show ?case by simp
next
  case (Cons item rest)
  show ?case
  proof (cases "needs_geocoding item")
    case False
    then have "settled cache item" by (simp add: settled_def)
    with Cons.prems(2) have seen': "\<forall>x\<in>set (seen @ [item]). settled cache x" by simp
    from Cons.prems(1) have "enrich_loop L srv (seen @ [item]) rest cache w = (None, ms1, c1, w1)"
      by (simp only: enrich_loop_skip[OF False])
    from Cons.IH[OF this seen'] show ?thesis .
  next
    case True
    obtain r cache' w' where ga: "geocode_address L srv (location item) cache w = (r, cache', w')"
      by (cases "geocode_address L srv (location item) cache w") auto
    have "\<exists>lat lon. r = Inr (lat, lon)"
    proof (cases r)
      case (Inl e)
      with Cons.prems(1) enrich_loop_raise[OF True ga[unfolded Inl]] show ?thesis by simp
    next
      case (Inr c)
      then show ?thesis by (cases c) simp
    qed
    then obtain lat lon where r: "r = Inr (lat, lon)" by blast
    let ?item = "item\<lparr>latitude := lat, longitude := lon\<rparr>"
    let ?w = "save_json INPUT_JSON (dumps_museums L (seen @ ?item # rest)) w'"
    from Cons.prems(1)
    have run: "enrich_loop L srv (seen @ [?item]) rest cache' ?w = (None, ms1, c1, w1)"
      by (simp only: enrich_loop_step[OF True ga[unfolded r]])
    have "settled cache' ?item"
      using geocode_address_settles[OF ga[unfolded r]]
      by (auto simp: settled_def split: if_splits)
    moreover have "\<forall>x\<in>set seen. settled cache' x"
      using Cons.prems(2) geocode_address_mono[OF ga] by (blast intro: settled_mono)
    ultimately have "\<forall>x\<in>set (seen @ [?item]). settled cache' x" by simp
    from Cons.IH[OF run this] show ?thesis .
  qed
qed

lemma enrich_loop_saved:
  assumes "enrich_loop L srv seen todo cache w = (None, ms1, c1, w1)"
  shows "(if \<exists>x\<in>set todo. needs_geocoding x
          then files w1 INPUT_JSON = Some (dumps_museums L ms1)
          else ms1 = seen @ todo \<and> c1 = cache \<and> w1 = w)
       \<and> ((\<exists>x\<in>set ms1. needs_geocoding x)
             \<longrightarrow> (\<exists>x\<in>set seen. needs_geocoding x) \<or> (\<exists>x\<in>set todo. needs_geocoding x))"
  using assms
proof (induction todo arbitrary: seen cache w)
  case Nil
  then show ?case by auto
next
  case (Cons item rest)
  show ?case
  proof (cases "needs_geocoding item")
    case False
    from Cons.prems have "enrich_loop L srv (seen @ [item]) rest cache w = (None, ms1, c1, w1)"
      by (simp only: enrich_loop_skip[OF False])
    from Cons.IH[OF this] False show ?thesis by auto
  next
    case True
    obtain r cache' w' where ga: "geocode_address L srv (location item) cache w = (r, cache', w')"
      by (cases "geocode_address L srv (location item) cache w") auto
    have "\<exists>lat lon. r = Inr (lat, lon)"
    proof (cases r)
      case (Inl e)
      with Cons.prems enrich_loop_raise[OF True ga[unfolded Inl]] show ?thesis by simp
    next
      case (Inr c)
      then show ?thesis by (cases c) simp
    qed
    then obtain lat lon where r: "r = Inr (lat, lon)" by blast
    let ?item = "item\<lparr>latitude := lat, longitude := lon\<rparr>"
    let ?w = "save_json INPUT_JSON (dumps_museums L (seen @ ?item # rest)) w'"
    from Cons.prems
    have run: "enrich_loop L srv (seen @ [?item]) rest cache' ?w = (None, ms1, c1, w1)"
      by (simp only: enrich_loop_step[OF True ga[unfolded r]])
    note ih = Cons.IH[OF run]
    have saved: "files ?w INPUT_JSON = Some (dumps_museums L (seen @ ?item # rest))"
      by (simp add: save_json_def)
    have "files w1 INPUT_JSON = Some (dumps_museums L ms1)"
    proof (cases "\<exists>x\<in>set rest. needs_geocoding x")
      case True
      with ih show ?thesis by simp
    next
      case False
      with ih have "ms1 = (seen @ [?item]) @ rest" "w1 = ?w" by auto
      with saved show ?thesis by simp
    qed
    then show ?thesis using True by auto
  qed
qed

lemma enrich_loop_rerun:
  assumes "\<forall>x\<in>set todo. settled cache x"
  shows "enrich_loop L srv seen todo cache w =
           (None, seen @ todo, cache,
            w\<lparr>files := (if \<exists>x\<in>set todo. needs_geocoding x
                         then (files w)(INPUT_JSON \<mapsto> dumps_museums L (seen @ todo))
                         else files w),
              events := events w @
                replicate (length (filter needs_geocoding todo))
                  (Save INPUT_JSON (dumps_museums L (seen @ todo)))\<rparr>)"
  using assms
proof (induction todo arbitrary: seen w)
  case Nil
  then show ?case by simp
next
  case (Cons item rest)
  then have st: "settled cache item" and rest: "\<forall>x\<in>set rest. settled cache x" by auto
  show ?case
  proof (cases "needs_geocoding item")
    case False
    show ?thesis
      unfolding enrich_loop_skip[OF False] Cons.IH[OF rest, of "seen @ [item]" w]
      using False by simp
  next
    case True
    let ?D = "dumps_museums L (seen @ item # rest)"
    let ?n = "length (filter needs_geocoding rest)"
    let ?w = "save_json INPUT_JSON ?D w"
    have step: "enrich_loop L srv seen (item # rest) cache w
            = enrich_loop L srv (seen @ [item]) rest cache ?w"
      using enrich_loop_step[OF True geocode_address_settled[OF st True, of L srv w], of seen rest]
      by (simp del: enrich_loop.simps)
    have ih: "enrich_loop L srv (seen @ [item]) rest cache ?w =
           (None, seen @ item # rest, cache,
            ?w\<lparr>files := (if \<exists>x\<in>set rest. needs_geocoding x
                          then (files ?w)(INPUT_JSON \<mapsto> ?D) else files ?w),
               events := events ?w @ replicate ?n (Save INPUT_JSON ?D)\<rparr>)"
      using Cons.IH[OF rest, of "seen @ [item]" ?w] by (simp del: enrich_loop.simps)
    have world: "?w\<lparr>files := (if \<exists>x\<in>set rest. needs_geocoding x
                          then (files ?w)(INPUT_JSON \<mapsto> ?D) else files ?w),
               events := events ?w @ replicate ?n (Save INPUT_JSON ?D)\<rparr>
          = w\<lparr>files := (files w)(INPUT_JSON \<mapsto> ?D),
              events := events w @ replicate (Suc ?n) (Save INPUT_JSON ?D)\<rparr>"
      by (simp add: save_json_def)
    have goal: "length (filter needs_geocoding (item # rest)) = Suc ?n"
      "\<exists>x\<in>set (item # rest). needs_geocoding x"
      using True by simp_all
    show ?thesis
      unfolding step ih world goal(1) if_P[OF goal(2)] by (rule refl)
  qed
qed

text \<open>
  C1. Let a first run of the loop over any record list and cache come to its end, with
  the records \<open>museums1\<close>, the cache \<open>cache1\<close> and the world \<open>w1\<close>. A second run
  over \<open>museums1\<close> and \<open>cache1\<close>, against any service whatever, comes to its end with
  the same records and the same cache; it sends no request to the resolution service
  (the sequence of requests of the world is unchanged) and leaves every file with the
  content it had (it only writes the record file again with the text it already
  holds).
\<close>

theorem enrich_idempotent:
  assumes "enrich_loop L srv [] museums cache w = (None, museums1, cache1, w1)"
  shows "\<exists>w2. enrich_loop L srv2 [] museums1 cache1 w1 = (None, museums1, cache1, w2)
           \<and> gets_of (events w2) = gets_of (events w1)
           \<and> files w2 = files w1"
proof -
  have st: "\<forall>x\<in>set museums1. settled cache1 x"
    using enrich_loop_settles[OF assms] by simp
  let ?D = "dumps_museums L museums1"
  let ?w2 = "w1\<lparr>files := (if \<exists>x\<in>set museums1. needs_geocoding x
                         then (files w1)(INPUT_JSON \<mapsto> ?D) else files w1),
              events := events w1 @
                replicate (length (filter needs_geocoding museums1)) (Save INPUT_JSON ?D)\<rparr>"
  have run: "enrich_loop L srv2 [] museums1 cache1 w1 = (None, museums1, cache1, ?w2)"
    using enrich_loop_rerun[OF st, of L srv2 "[]" w1] by simp
  have gets: "gets_of (events ?w2) = gets_of (events w1)"
    by (simp add: gets_of_append gets_of_saves)
  have files: "files ?w2 = files w1"
  proof (cases "\<exists>x\<in>set museums1. needs_geocoding x")
    case True
    with enrich_loop_saved[OF assms] have "files w1 INPUT_JSON = Some ?D"
      by (auto split: if_splits)
    then show ?thesis using True by (simp add: fun_upd_idem)
  next
    case False
    then show ?thesis by simp
  qed
  from run gets files show ?thesis by blast
qed

lemmas demo_simps =
  demo_lib_def demo_museum_def found_body_def empty_world_def
  geocode_address_def geocode_nominatim_cases accept_response_def first_candidate_def
  save_json_def sleep_def Let_def
  INPUT_JSON_def CACHE_JSON_def GEOCODE_SLEEP_SECONDS_def RETRY_BACKOFF_SECONDS_def

theorem enrich_idempotent_witness:
  "\<exists>ms1 c1 w1 w2.
     enrich_loop demo_lib
       (\<lambda>h q. if q = ''Main St 1'' then Reply 200 (Some found_body)
              else Reply 200 (Some (JArr [])))
       [] [demo_museum, demo_museum\<lparr>name := ''B Museum'', location := ''Nowhere 2''\<rparr>] []
       empty_world = (None, ms1, c1, w1)
   \<and> enrich_loop demo_lib (\<lambda>h q. Reply 200 (Some found_body)) [] ms1 c1 w1
       = (None, ms1, c1, w2)
   \<and> gets_of (events w2) = gets_of (events w1)
   \<and> files w2 = files w1
   \<and> gets_of (events w1) = [''Main St 1'', ''Nowhere 2'', ''Nowhere 2, Netherlands'']
   \<and> map latitude ms1 = [Some (521 / 10), None]
   \<and> c1 = [(''Main St 1'', (Some (521 / 10), Some (26 / 5))), (''Nowhere 2'', (None, None))]"
proof -
  let ?srv = "\<lambda>(h :: string list) q. if q = ''Main St 1'' then Reply 200 (Some found_body)
                 else Reply 200 (Some (JArr []))"
  let ?ms = "[demo_museum, demo_museum\<lparr>name := ''B Museum'', location := ''Nowhere 2''\<rparr>]"
  define r where "r = enrich_loop demo_lib ?srv [] ?ms [] empty_world"
  have e: "fst r = None"
    and g: "gets_of (events (snd (snd (snd r))))
              = [''Main St 1'', ''Nowhere 2'', ''Nowhere 2, Netherlands'']"
    and l: "map latitude (fst (snd r)) = [Some (521 / 10), None]"
    and c: "fst (snd (snd r))
              = [(''Main St 1'', (Some (521 / 10), Some (26 / 5))), (''Nowhere 2'', (None, None))]"
    unfolding r_def by (simp_all add: demo_simps)
  obtain ms1 c1 w1 where r: "enrich_loop demo_lib ?srv [] ?ms [] empty_world = (None, ms1, c1, w1)"
    using e unfolding r_def
    by (cases "enrich_loop demo_lib ?srv [] ?ms [] empty_world") auto
  from enrich_idempotent[OF r, of "\<lambda>h q. Reply 200 (Some found_body)"]
  obtain w2 where again:
    "enrich_loop demo_lib (\<lambda>h q. Reply 200 (Some found_body)) [] ms1 c1 w1 = (None, ms1, c1, w2)"
    "gets_of (events w2) = gets_of (events w1)" "files w2 = files w1"
    by blast
  from g l c have first:
    "gets_of (events w1) = [''Main St 1'', ''Nowhere 2'', ''Nowhere 2, Netherlands'']"
    "map latitude ms1 = [Some (521 / 10), None]"
    "c1 = [(''Main St 1'', (Some (521 / 10), Some (26 / 5))), (''Nowhere 2'', (None, None))]"
    unfolding r_def r by simp_all
  show ?thesis
    by (rule exI[of _ ms1], rule exI[of _ c1], rule exI[of _ w1], rule exI[of _ w2])
      (intro conjI, (rule r again first)+)
qed

section \<open>The coordinate pair\<close>

lemma accept_response_pair:
  assumes "accept_response L resp = Inr p"
  shows "pair_ok p"
  using assms
  by (auto simp: accept_response_def first_candidate_def pair_ok_def
      split: response.splits if_splits option.splits sum.splits)

lemma geocode_nominatim_pair:
  assumes "geocode_nominatim L srv q w = (Inr p, w1)"
  shows "pair_ok p"
  using assms
  by (auto simp: geocode_nominatim_cases pair_ok_def
      split: response.splits if_splits dest: accept_response_pair)

lemma geocode_address_pair:
  assumes "cache_ok cache" and "geocode_address L srv a cache w = (r, cache', w')"
  shows "cache_ok cache' \<and> (case r of Inl e \<Rightarrow> True | Inr p \<Rightarrow> pair_ok p)"
proof (cases "a = []")
  case True
  with assms show ?thesis by (auto simp: geocode_address_def pair_ok_def)
next
  case ne: False
  show ?thesis
  proof (cases "map_of cache a")
    case (Some entry)
    then have "(a, entry) \<in> set cache" by (rule map_of_SomeD)
    with assms(1) have "pair_ok entry" by (auto simp: cache_ok_def list_all_iff)
    with assms ne Some show ?thesis by (auto simp: geocode_address_def)
  next
    case None
    obtain r1 w1 where g1: "geocode_nominatim L srv a w = (r1, w1)"
      by (cases "geocode_nominatim L srv a w")
    show ?thesis
    proof (cases r1)
      case (Inl e)
      with assms ne None g1 show ?thesis by (auto simp: geocode_address_def)
    next
      case (Inr raw)
      have raw: "pair_ok raw" using g1 Inr by (auto dest: geocode_nominatim_pair)
      obtain r2 w2 where g2:
        "(if raw = (None, None) then geocode_nominatim L srv (a @ '', Netherlands'') w1
          else (Inr raw, w1)) = (r2, w2)"
        by (cases "if raw = (None, None) then geocode_nominatim L srv (a @ '', Netherlands'') w1
          else (Inr raw, w1)")
      show ?thesis
      proof (cases r2)
        case (Inl e)
        with assms ne None g1 Inr g2 show ?thesis by (auto simp: geocode_address_def)
      next
        case c: (Inr coords)
        have "pair_ok coords"
          using g2 c raw by (auto split: if_splits dest: geocode_nominatim_pair)
        moreover have "cache' = cache @ [(a, coords)]" "r = Inr coords"
          using assms(2) ne None g1 Inr g2 c
          by (simp_all add: geocode_address_def Let_def update_miss)
        ultimately show ?thesis using assms(1) by (simp add: cache_ok_def)
      qed
    qed
  qed
qed

lemma enrich_loop_pairs:
  assumes "cache_ok cache" and "list_all coords_ok seen"
    and "enrich_loop L srv seen todo cache w = (e, ms1, c1, w1)"
    and "e = None \<or> list_all coords_ok todo"
  shows "list_all coords_ok ms1 \<and> cache_ok c1"
  using assms
proof (induction todo arbitrary: seen cache w)
  case Nil
  then show ?case by simp
next
  case (Cons item rest)
  have rest: "e = None \<or> list_all coords_ok rest" using Cons.prems(4) by auto
  show ?case
  proof (cases "needs_geocoding item")
    case False
    then have "coords_ok item" by (auto simp: needs_geocoding_def coords_ok_def)
    with Cons.prems(2) have seen': "list_all coords_ok (seen @ [item])" by simp
    from Cons.prems(3) have "enrich_loop L srv (seen @ [item]) rest cache w = (e, ms1, c1, w1)"
      by (simp only: enrich_loop_skip[OF False])
    from Cons.IH[OF Cons.prems(1) seen' this rest] show ?thesis .
  next
    case True
    obtain r cache' w' where ga: "geocode_address L srv (location item) cache w = (r, cache', w')"
      by (cases "geocode_address L srv (location item) cache w") auto
    note gp = geocode_address_pair[OF Cons.prems(1) ga]
    show ?thesis
    proof (cases r)
      case (Inl err)
      from Cons.prems(3) have "(e, ms1, c1, w1) = (Some err, seen @ item # rest, cache', w')"
        by (simp only: enrich_loop_raise[OF True ga[unfolded Inl]])
      with Cons.prems(2,4) gp show ?thesis by auto
    next
      case (Inr p)
      obtain lat lon where p: "p = (lat, lon)" by (cases p)
      let ?item = "item\<lparr>latitude := lat, longitude := lon\<rparr>"
      let ?w = "save_json INPUT_JSON (dumps_museums L (seen @ ?item # rest)) w'"
      from Cons.prems(3)
      have run: "enrich_loop L srv (seen @ [?item]) rest cache' ?w = (e, ms1, c1, w1)"
        by (simp only: enrich_loop_step[OF True ga[unfolded Inr p]])
      have "coords_ok ?item" using gp Inr p by (simp add: coords_ok_def pair_ok_def)
      with Cons.prems(2) have seen': "list_all coords_ok (seen @ [?item])" by simp
      from gp have "cache_ok cache'" by simp
      from Cons.IH[OF this seen' run rest] show ?thesis .
    qed
  qed
qed

subsection \<open>The Harvester's records\<close>

lemma scrape_card_coords:
  assumes "scrape_card web c = Inr m"
  shows "latitude m = None \<and> longitude m = None"
  using assms
  by (auto simp: scrape_card_def Let_def split: option.splits)

lemma scrape_cards_pairs:
  assumes "list_all coords_ok museums"
  shows "list_all coords_ok (fst (scrape_cards L web i n cards museums w))"
  using assms
proof (induction cards arbitrary: i museums w)
  case Nil
  then show ?case by simp
next
  case (Cons c cards)
  show ?case
  proof (cases "scrape_card web c :: py_error + 'a museum")
    case (Inl e)
    then show ?thesis using Cons by simp
  next
    case (Inr m)
    then have "coords_ok m" by (auto simp: coords_ok_def dest: scrape_card_coords)
    with Cons.prems have "list_all coords_ok (museums @ [m])" by simp
    from Cons.IH[OF this] Inr show ?thesis by (simp add: Let_def)
  qed
qed

text \<open>
  C6. No operation produces a record with exactly one of the two coordinates. A record
  that the Harvester builds from a card has neither, and the Harvester's loop keeps
  the invariant of the list it appends to. A resolution attempt that returns gives both
  coordinates or \<^verbatim>\<open>(None, None)\<close>. \<^verbatim>\<open>geocode_address\<close> returns such a pair and keeps
  the cache a cache of such pairs, given a cache of such pairs (the entry of a hit is
  handed on as it is stored). The Enricher's loop, from such a cache and records that
  satisfy the invariant, ends (with or without an exception) with records that satisfy
  it and with such a cache; a run that comes to its end leaves all records with both
  coordinates or none even if some record came in with one, since such a record is
  looked up again and both its fields are overwritten.
\<close>

theorem coordinates_both_or_none:
  "(case scrape_card web c of Inl e \<Rightarrow> True | Inr (m :: 'f museum) \<Rightarrow> coords_ok m)
   \<and> (list_all coords_ok museums
        \<longrightarrow> list_all coords_ok (fst (scrape_cards L web i n cards museums w)))
   \<and> (case fst (geocode_nominatim L srv q w) of Inl e \<Rightarrow> True | Inr p \<Rightarrow> pair_ok p)
   \<and> (cache_ok cache
        \<longrightarrow> (case geocode_address L srv a cache w of
               (r, cache', w') \<Rightarrow>
                 cache_ok cache' \<and> (case r of Inl e \<Rightarrow> True | Inr p \<Rightarrow> pair_ok p)))
   \<and> (cache_ok cache \<and> list_all coords_ok (seen @ todo)
        \<longrightarrow> (case enrich_loop L srv seen todo cache w of
               (e, ms1, c1, w1) \<Rightarrow> list_all coords_ok ms1 \<and> cache_ok c1))
   \<and> (cache_ok cache
        \<longrightarrow> (case enrich_loop L srv [] todo cache w of
               (e, ms1, c1, w1) \<Rightarrow> e = None \<longrightarrow> list_all coords_ok ms1 \<and> cache_ok c1))"
proof (intro conjI impI)
  show "case scrape_card web c of Inl e \<Rightarrow> True | Inr (m :: 'f museum) \<Rightarrow> coords_ok m"
    by (auto simp: coords_ok_def split: sum.splits dest: scrape_card_coords)
  show "list_all coords_ok (fst (scrape_cards L web i n cards museums w))"
    if "list_all coords_ok museums" using that by (rule scrape_cards_pairs)
  show "case fst (geocode_nominatim L srv q w) of Inl e \<Rightarrow> True | Inr p \<Rightarrow> pair_ok p"
    by (cases "geocode_nominatim L srv q w") (auto split: sum.splits dest: geocode_nominatim_pair)
  show "case geocode_address L srv a cache w of
               (r, cache', w') \<Rightarrow>
                 cache_ok cache' \<and> (case r of Inl e \<Rightarrow> True | Inr p \<Rightarrow> pair_ok p)"
    if "cache_ok cache"
    using geocode_address_pair[OF that] by (cases "geocode_address L srv a cache w") auto
  show "case enrich_loop L srv seen todo cache w of
               (e, ms1, c1, w1) \<Rightarrow> list_all coords_ok ms1 \<and> cache_ok c1"
    if "cache_ok cache \<and> list_all coords_ok (seen @ todo)"
    using that enrich_loop_pairs[of cache seen L srv todo w]
    by (cases "enrich_loop L srv seen todo cache w") auto
  show "case enrich_loop L srv [] todo cache w of
               (e, ms1, c1, w1) \<Rightarrow> e = None \<longrightarrow> list_all coords_ok ms1 \<and> cache_ok c1"
    if "cache_ok cache"
    using that enrich_loop_pairs[of cache "[]" L srv todo w]
    by (cases "enrich_loop L srv [] todo cache w") auto
qed

theorem coordinates_both_or_none_witness:
  "cache_ok ([] :: rat cache) \<and> list_all coords_ok [demo_museum] \<and>
   (case enrich_loop demo_lib (\<lambda>h q. Reply 200 (Some found_body)) [] [demo_museum] []
           empty_world of
      (e, ms1, c1, w1) \<Rightarrow>
        list_all coords_ok ms1 \<and> cache_ok c1 \<and>
        map (\<lambda>m. (latitude m, longitude m)) ms1 = [(Some (521 / 10), Some (26 / 5))] \<and>
        c1 = [(''Main St 1'', (Some (521 / 10), Some (26 / 5)))])"
  using coordinates_both_or_none[where cache = "[] :: rat cache" and seen = "[]"
      and todo = "[demo_museum]" and L = demo_lib
      and srv = "\<lambda>h q. Reply 200 (Some found_body)" and w = empty_world]
  by (simp add: demo_simps cache_ok_def coords_ok_def pair_ok_def)

section \<open>Failures of the resolution service\<close>

lemma geocode_nominatim_kept:
  "fst (geocode_nominatim L srv q w) = accept_response L (kept_response srv q w)"
  by (auto simp: geocode_nominatim_cases kept_response_def accept_response_failure(1)
      split: response.splits)

lemma accept_response_no_result:
  assumes "no_result L resp"
  shows "accept_response L resp = Inr (None, None)"
  using assms
  by (auto simp: no_result_def accept_response_def split: response.splits option.splits)

text \<open>
  Two runs on which the sentence "every failure of an attempt leaves the record without
  coordinates and caches a negative outcome, and never raises" is evaluated. In the
  first the request with the raw address raises and the request with the qualified
  address finds the place: the record gets its coordinates and the cache a positive
  entry. In the second the service answers 200 with a list whose first candidate has
  no \<^verbatim>\<open>lat\<close> key: the \<^verbatim>\<open>KeyError\<close> of line 69 is no
  \<^verbatim>\<open>RequestException\<close>, nothing in \<^verbatim>\<open>geocode_address\<close> or \<^verbatim>\<open>main\<close> catches it,
  and the run ends with it; nothing has been cached or saved.
\<close>

lemma raw_failure_then_found:
  "enrich_loop demo_lib (\<lambda>h q. if h = [] then Raises else Reply 200 (Some found_body))
     [] [demo_museum] [] empty_world
   = (None,
      [demo_museum\<lparr>latitude := Some (521 / 10), longitude := Some (26 / 5)\<rparr>],
      [(''Main St 1'', (Some (521 / 10), Some (26 / 5)))],
      \<lparr>files = [''geocode_cache.json'' \<mapsto> ''Main St 1++;'',
                ''museums.json'' \<mapsto> ''A Museum@Main St 1++;''],
       events = [Get ''Main St 1'', Get ''Main St 1, Netherlands'',
                 Save ''geocode_cache.json'' ''Main St 1++;'', Sleep (12 / 10),
                 Save ''museums.json'' ''A Museum@Main St 1++;'']\<rparr>)"
  by (simp add: demo_simps)

lemma malformed_body_raises:
  "main demo_lib (\<lambda>h q. Reply 200 (Some (JArr [JObj []]))) demo_world
   = (Some KeyError, [demo_museum], [], demo_world\<lparr>events := [Get ''Main St 1'']\<rparr>)"
  by (simp add: main_def load_json_def read_json_def demo_world_def demo_simps)

theorem failure_not_always_negative_counterexample:
  "fst (main demo_lib (\<lambda>h q. Reply 200 (Some (JArr [JObj []]))) demo_world) = Some KeyError
   \<and> map (\<lambda>m. (latitude m, longitude m))
        (fst (snd (enrich_loop demo_lib
           (\<lambda>h q. if h = [] then Raises else Reply 200 (Some found_body))
           [] [demo_museum] [] empty_world)))
      = [(Some (521 / 10), Some (26 / 5))]"
  unfolding malformed_body_raises raw_failure_then_found by simp

text \<open>
  C5, as the handler of \<^verbatim>\<open>_geocode_nominatim\<close> has it. A response without a result
  (the request raised, an error status, also a second 429, a body that is not JSON
  where the library reports that as a \<^verbatim>\<open>RequestException\<close>, or a falsy body such as
  the empty list) is turned into \<^verbatim>\<open>(None, None)\<close>, and so is the attempt that keeps
  such a response: nothing is raised. When the attempt with the raw address and the
  attempt with the qualified address both end so, \<^verbatim>\<open>geocode_address\<close> returns
  \<^verbatim>\<open>(None, None)\<close>, caches it under the raw address and saves the cache, and the
  loop sets both coordinates of the record to \<open>None\<close>, saves the records and goes on
  with the next record. What happens on a truthy body without usable coordinates is
  not part of this statement.
\<close>

theorem resolution_failures_are_negative:
  "(no_result L resp \<longrightarrow> accept_response L resp = Inr (None, None))
   \<and> (no_result L (kept_response srv q w)
        \<longrightarrow> fst (geocode_nominatim L srv q w) = Inr (None, None))
   \<and> (address \<noteq> [] \<and> map_of cache address = None
        \<and> geocode_nominatim L srv address w = (Inr (None, None), w1)
        \<and> geocode_nominatim L srv (address @ '', Netherlands'') w1 = (Inr (None, None), w2)
        \<longrightarrow> geocode_address L srv address cache w
              = (Inr (None, None), cache @ [(address, (None, None))],
                 sleep GEOCODE_SLEEP_SECONDS
                   (save_json CACHE_JSON
                      (dumps_cache L (cache @ [(address, (None, None))])) w2)))
   \<and> (needs_geocoding item \<and> location item \<noteq> [] \<and> map_of cache (location item) = None
        \<and> geocode_nominatim L srv (location item) w = (Inr (None, None), w1)
        \<and> geocode_nominatim L srv (location item @ '', Netherlands'') w1
            = (Inr (None, None), w2)
        \<longrightarrow> enrich_loop L srv seen (item # rest) cache w
              = enrich_loop L srv
                  (seen @ [item\<lparr>latitude := None, longitude := None\<rparr>]) rest
                  (cache @ [(location item, (None, None))])
                  (save_json INPUT_JSON
                     (dumps_museums L
                        (seen @ item\<lparr>latitude := None, longitude := None\<rparr> # rest))
                     (sleep GEOCODE_SLEEP_SECONDS
                        (save_json CACHE_JSON
                           (dumps_cache L (cache @ [(location item, (None, None))])) w2))))"
proof (intro conjI impI)
  show "accept_response L resp = Inr (None, None)" if "no_result L resp"
    using that by (rule accept_response_no_result)
  show "fst (geocode_nominatim L srv q w) = Inr (None, None)"
    if "no_result L (kept_response srv q w)"
    using that by (simp add: geocode_nominatim_kept accept_response_no_result)
  show "geocode_address L srv address cache w
              = (Inr (None, None), cache @ [(address, (None, None))],
                 sleep GEOCODE_SLEEP_SECONDS
                   (save_json CACHE_JSON
                      (dumps_cache L (cache @ [(address, (None, None))])) w2))"
    if "address \<noteq> [] \<and> map_of cache address = None
        \<and> geocode_nominatim L srv address w = (Inr (None, None), w1)
        \<and> geocode_nominatim L srv (address @ '', Netherlands'') w1 = (Inr (None, None), w2)"
    using that geocode_address_miss_run[where raw = "(None, None)" and coords = "(None, None)"
        and address = address and cache = cache and L = L and srv = srv and w = w
        and ?w1.0 = w1 and ?w2.0 = w2]
    by simp
  show "enrich_loop L srv seen (item # rest) cache w
              = enrich_loop L srv
                  (seen @ [item\<lparr>latitude := None, longitude := None\<rparr>]) rest
                  (cache @ [(location item, (None, None))])
                  (save_json INPUT_JSON
                     (dumps_museums L
                        (seen @ item\<lparr>latitude := None, longitude := None\<rparr> # rest))
                     (sleep GEOCODE_SLEEP_SECONDS
                        (save_json CACHE_JSON
                           (dumps_cache L (cache @ [(location item, (None, None))])) w2)))"
    if h: "needs_geocoding item \<and> location item \<noteq> [] \<and> map_of cache (location item) = None
        \<and> geocode_nominatim L srv (location item) w = (Inr (None, None), w1)
        \<and> geocode_nominatim L srv (location item @ '', Netherlands'') w1
            = (Inr (None, None), w2)"
  proof -
    have "geocode_address L srv (location item) cache w
              = (Inr (None, None), cache @ [(location item, (None, None))],
                 sleep GEOCODE_SLEEP_SECONDS
                   (save_json CACHE_JSON
                      (dumps_cache L (cache @ [(location item, (None, None))])) w2))"
      using h geocode_address_miss_run[where raw = "(None, None)" and coords = "(None, None)"
          and address = "location item" and cache = cache and L = L and srv = srv and w = w
          and ?w1.0 = w1 and ?w2.0 = w2]
      by simp
    from enrich_loop_step[OF _ this, of seen rest] h show ?thesis by simp
  qed
qed

theorem resolution_failures_are_negative_witness:
  "no_result demo_lib (Raises :: rat response)
   \<and> accept_response demo_lib (Raises :: rat response) = Inr (None, None)
   \<and> no_result demo_lib (kept_response (\<lambda>h q. Reply 429 None) ''Main St 1'' empty_world)
   \<and> geocode_nominatim demo_lib (\<lambda>h q. Reply 429 None) ''Main St 1'' empty_world
       = (Inr (None, None),
          \<lparr>files = Map.empty, events = [Get ''Main St 1'', Sleep 5, Get ''Main St 1'']\<rparr>)
   \<and> needs_geocoding demo_museum
   \<and> enrich_loop demo_lib (\<lambda>h q. Raises) [] [demo_museum] [] empty_world
       = (None, [demo_museum], [(''Main St 1'', (None, None))],
          \<lparr>files = [''geocode_cache.json'' \<mapsto> ''Main St 1--;'',
                    ''museums.json'' \<mapsto> ''A Museum@Main St 1--;''],
           events = [Get ''Main St 1'', Get ''Main St 1, Netherlands'',
                     Save ''geocode_cache.json'' ''Main St 1--;'', Sleep (12 / 10),
                     Save ''museums.json'' ''A Museum@Main St 1--;'']\<rparr>)"
proof -
  let ?w1 = "\<lparr>files = Map.empty, events = [Get ''Main St 1'']\<rparr>"
  let ?w2 = "\<lparr>files = Map.empty, events = [Get ''Main St 1'', Get ''Main St 1, Netherlands'']\<rparr>"
  let ?srv = "(\<lambda>h q. Raises) :: rat service"
  have n: "needs_geocoding demo_museum" "location demo_museum \<noteq> []"
      "map_of ([] :: rat cache) (location demo_museum) = None"
    by (simp_all add: needs_geocoding_def demo_museum_def)
  have g1: "geocode_nominatim demo_lib ?srv (location demo_museum) empty_world
              = (Inr (None, None), ?w1)"
    by (simp add: demo_simps)
  have g2: "geocode_nominatim demo_lib ?srv (location demo_museum @ '', Netherlands'') ?w1
              = (Inr (None, None), ?w2)"
    by (simp add: demo_simps)
  have k: "no_result demo_lib (kept_response (\<lambda>h q. Reply 429 None :: rat response)
             ''Main St 1'' empty_world)"
    by (simp add: no_result_def kept_response_def)
  note inst = resolution_failures_are_negative[of demo_lib Raises
      "\<lambda>h q. Reply 429 None" "''Main St 1''" empty_world]
  have a: "accept_response demo_lib (Raises :: rat response) = Inr (None, None)"
    using inst by (simp add: no_result_def)
  have b: "fst (geocode_nominatim demo_lib (\<lambda>h q. Reply 429 None :: rat response)
             ''Main St 1'' empty_world) = Inr (None, None)"
    using inst k by simp
  have c: "enrich_loop demo_lib ?srv [] [demo_museum] [] empty_world
       = (None, [demo_museum], [(''Main St 1'', (None, None))],
          \<lparr>files = [''geocode_cache.json'' \<mapsto> ''Main St 1--;'',
                    ''museums.json'' \<mapsto> ''A Museum@Main St 1--;''],
           events = [Get ''Main St 1'', Get ''Main St 1, Netherlands'',
                     Save ''geocode_cache.json'' ''Main St 1--;'', Sleep (12 / 10),
                     Save ''museums.json'' ''A Museum@Main St 1--;'']\<rparr>)"
    using inst n g1 g2 by (simp add: demo_simps)
  show ?thesis
    using a b c k n(1) by (simp add: no_result_def geocode_nominatim_cases empty_world_def
        RETRY_BACKOFF_SECONDS_def)
qed

section \<open>Loading the stores\<close>

lemma utf8_valid_ascii: "list_all (\<lambda>c. (of_char c :: nat) < 0x80) s \<Longrightarrow> utf8_valid s"
  by (induction s rule: utf8_valid.induct) (simp_all add: Let_def)

lemma load_json_absent: "fs path = None \<Longrightarrow> load_json loads fs path d = Inr d"
  by (simp add: load_json_def)

lemma load_json_not_json:
  "fs path = Some content \<Longrightarrow> utf8_valid content \<Longrightarrow> loads content = Inl JSONDecodeError
     \<Longrightarrow> load_json loads fs path d = Inr d"
  by (simp add: load_json_def read_json_def)

lemma load_json_parsed:
  "fs path = Some content \<Longrightarrow> utf8_valid content \<Longrightarrow> loads content = Inr v
     \<Longrightarrow> load_json loads fs path d = Inr v"
  by (simp add: load_json_def read_json_def)

lemma load_json_undecodable:
  "fs path = Some content \<Longrightarrow> \<not> utf8_valid content
     \<Longrightarrow> load_json loads fs path d = Inl UnicodeDecodeError"
  by (simp add: load_json_def read_json_def)

lemma load_json_other_error:
  "fs path = Some content \<Longrightarrow> utf8_valid content \<Longrightarrow> loads content = Inl e
     \<Longrightarrow> e \<noteq> JSONDecodeError \<Longrightarrow> load_json loads fs path d = Inl e"
  by (simp add: load_json_def read_json_def)

lemma resume_load_eq: "resume_load L fs = load_json (loads_museums L) fs output_file []"
  by (simp add: resume_load_def load_json_def)

text \<open>The Enricher reads the files only when it starts; after that it only writes them. So
  what a run returns and does depends on the world through its events alone.\<close>

lemma geocode_nominatim_events_only:
  assumes "events v = events w"
  shows "fst (geocode_nominatim L srv q v) = fst (geocode_nominatim L srv q w)
       \<and> events (snd (geocode_nominatim L srv q v)) = events (snd (geocode_nominatim L srv q w))"
  using assms by (simp add: geocode_nominatim_cases split: response.splits)

lemma geocode_address_events_only:
  assumes ev: "events v = events w"
    and gv: "geocode_address L srv a cache v = (r, c, v')"
  shows "\<exists>w'. geocode_address L srv a cache w = (r, c, w') \<and> events v' = events w'"
proof (cases "a = [] \<or> (\<exists>entry. map_of cache a = Some entry)")
  case True
  with ev gv show ?thesis by (auto simp: geocode_address_def split: if_splits)
next
  case False
  then have ne: "a \<noteq> []" and miss: "map_of cache a = None"
    by (simp_all add: not_Some_eq[symmetric] del: not_Some_eq not_None_eq)
  obtain r1 v1 where nv: "geocode_nominatim L srv a v = (r1, v1)"
    by (cases "geocode_nominatim L srv a v")
  obtain r1' w1 where nw: "geocode_nominatim L srv a w = (r1', w1)"
    by (cases "geocode_nominatim L srv a w")
  from geocode_nominatim_events_only[OF ev, of L srv a] nv nw
  have r1: "r1' = r1" and e1: "events v1 = events w1" by simp_all
  show ?thesis
  proof (cases r1)
    case (Inl e)
    with gv nv nw r1 e1 ne miss show ?thesis by (auto simp: geocode_address_def)
  next
    case (Inr raw)
    show ?thesis
    proof (cases "raw = (None, None)")
      case False
      with gv nv nw r1 e1 ne miss Inr show ?thesis
        by (auto simp: geocode_address_def Let_def save_json_def sleep_def)
    next
      case True
      let ?q = "a @ '', Netherlands''"
      obtain r2 v2 where nv2: "geocode_nominatim L srv ?q v1 = (r2, v2)"
        by (cases "geocode_nominatim L srv ?q v1")
      obtain r2' w2 where nw2: "geocode_nominatim L srv ?q w1 = (r2', w2)"
        by (cases "geocode_nominatim L srv ?q w1")
      from geocode_nominatim_events_only[OF e1, of L srv ?q] nv2 nw2
      have r2: "r2' = r2" and e2: "events v2 = events w2" by simp_all
      show ?thesis
      proof (cases r2)
        case (Inl e)
        with gv nv nw r1 e1 ne miss Inr True nv2 nw2 r2 e2 show ?thesis
          by (auto simp: geocode_address_def)
      next
        case c: (Inr coords)
        with gv nv nw r1 e1 ne miss Inr True nv2 nw2 r2 e2 show ?thesis
          by (auto simp: geocode_address_def Let_def save_json_def sleep_def)
      qed
    qed
  qed
qed

lemma enrich_loop_events_only:
  assumes "events v = events w"
  shows "outcome (enrich_loop L srv seen todo cache v)
           = outcome (enrich_loop L srv seen todo cache w)"
  using assms
proof (induction todo arbitrary: seen cache v w)
  case Nil
  then show ?case by (simp add: outcome_def)
next
  case (Cons item rest)
  show ?case
  proof (cases "needs_geocoding item")
    case False
    show ?thesis
      unfolding enrich_loop_skip[OF False] by (rule Cons.IH[OF Cons.prems])
  next
    case True
    obtain r c v' where gv: "geocode_address L srv (location item) cache v = (r, c, v')"
      by (cases "geocode_address L srv (location item) cache v") auto
    from geocode_address_events_only[OF Cons.prems gv]
    obtain w' where gw: "geocode_address L srv (location item) cache w = (r, c, w')"
      and e': "events v' = events w'" by blast
    show ?thesis
    proof (cases r)
      case (Inl e)
      show ?thesis
        unfolding enrich_loop_raise[OF True gv[unfolded Inl]]
          enrich_loop_raise[OF True gw[unfolded Inl]]
        using e' by (simp add: outcome_def)
    next
      case (Inr p)
      obtain lat lon where p: "p = (lat, lon)" by (cases p)
      let ?ms = "dumps_museums L (seen @ item\<lparr>latitude := lat, longitude := lon\<rparr> # rest)"
      have "events (save_json INPUT_JSON ?ms v') = events (save_json INPUT_JSON ?ms w')"
        using e' by (simp add: save_json_def)
      from Cons.IH[OF this] show ?thesis
        unfolding enrich_loop_step[OF True gv[unfolded Inr p]]
          enrich_loop_step[OF True gw[unfolded Inr p]] .
    qed
  qed
qed

lemma main_cache_default:
  assumes "load_json (loads_cache L) (files w) CACHE_JSON [] = Inr []"
  shows "main L srv w =
           (case load_json (loads_museums L) (files w) INPUT_JSON [] of
              Inl e \<Rightarrow> (Some e, [], [], w)
            | Inr museums \<Rightarrow>
                if museums = [] then (None, [], [], w)
                else enrich_loop L srv [] museums [] w)"
  using assms by (simp add: main_def split: sum.splits)

text \<open>
  A cache file that holds text which is not JSON: the default is loaded, and the run is
  the run of the loop from the empty cache. It returns the same exception or none, the
  same records, the same cache and does the same external actions as the run in any
  world with the same record file in which the cache loads as empty (the cache file
  absent, or holding an empty dict).
\<close>

lemma not_json_cache_is_empty_cache:
  assumes c: "files w CACHE_JSON = Some content" "utf8_valid content"
      "loads_cache L content = Inl JSONDecodeError"
    and v: "events v = events w" "files v INPUT_JSON = files w INPUT_JSON"
      "load_json (loads_cache L) (files v) CACHE_JSON [] = Inr []"
  shows "outcome (main L srv w) = outcome (main L srv v)"
proof -
  have cw: "load_json (loads_cache L) (files w) CACHE_JSON [] = Inr []"
    using c by (rule load_json_not_json)
  have ms: "load_json (loads_museums L) (files v) INPUT_JSON []
              = load_json (loads_museums L) (files w) INPUT_JSON []"
    using v(2) by (simp add: load_json_def)
  have ev: "events w = events v" using v(1) by simp
  note mw = main_cache_default[OF cw, of srv]
  note mv = main_cache_default[OF v(3), of srv, unfolded ms]
  show ?thesis
  proof (cases "load_json (loads_museums L) (files w) INPUT_JSON []")
    case (Inl e)
    show ?thesis unfolding mw mv using Inl ev by (simp add: outcome_def)
  next
    case (Inr museums)
    show ?thesis
    proof (cases "museums = []")
      case True
      show ?thesis unfolding mw mv using Inr True ev by (simp add: outcome_def)
    next
      case False
      show ?thesis unfolding mw mv using Inr False
        by (simp add: enrich_loop_events_only[OF ev])
    qed
  qed
qed

lemma not_json_cache_demo:
  "load_json (loads_cache demo_lib) (files corrupt_world) CACHE_JSON [] = Inr []
   \<and> outcome (main demo_lib (\<lambda>h q. Reply 200 (Some found_body)) corrupt_world)
       = outcome (main demo_lib (\<lambda>h q. Reply 200 (Some found_body)) demo_world)
   \<and> outcome (main demo_lib (\<lambda>h q. Reply 200 (Some found_body)) demo_world)
       = (None, [demo_museum\<lparr>latitude := Some (521 / 10), longitude := Some (26 / 5)\<rparr>],
          [(''Main St 1'', (Some (521 / 10), Some (26 / 5)))],
          [Get ''Main St 1'', Save ''geocode_cache.json'' ''Main St 1++;'', Sleep (12 / 10),
           Save ''museums.json'' ''A Museum@Main St 1++;''])"
proof -
  have h: "files corrupt_world CACHE_JSON = Some ''{Main St''" "utf8_valid ''{Main St''"
    "loads_cache demo_lib ''{Main St'' = Inl JSONDecodeError"
    "events demo_world = events corrupt_world"
    "files demo_world INPUT_JSON = files corrupt_world INPUT_JSON"
    "load_json (loads_cache demo_lib) (files demo_world) CACHE_JSON [] = Inr []"
    by (simp_all add: corrupt_world_def demo_world_def demo_lib_def CACHE_JSON_def
        INPUT_JSON_def load_json_def)
  have a: "load_json (loads_cache demo_lib) (files corrupt_world) CACHE_JSON [] = Inr []"
    using h(1-3) by (rule load_json_not_json)
  have b: "outcome (main demo_lib (\<lambda>h q. Reply 200 (Some found_body)) corrupt_world)
       = outcome (main demo_lib (\<lambda>h q. Reply 200 (Some found_body)) demo_world)"
    using h by (rule not_json_cache_is_empty_cache)
  have c: "outcome (main demo_lib (\<lambda>h q. Reply 200 (Some found_body)) demo_world)
       = (None, [demo_museum\<lparr>latitude := Some (521 / 10), longitude := Some (26 / 5)\<rparr>],
          [(''Main St 1'', (Some (521 / 10), Some (26 / 5)))],
          [Get ''Main St 1'', Save ''geocode_cache.json'' ''Main St 1++;'', Sleep (12 / 10),
           Save ''museums.json'' ''A Museum@Main St 1++;''])"
    by (simp add: main_def load_json_def read_json_def demo_world_def outcome_def demo_simps)
  show ?thesis using a b c by (simp only: simp_thms)
qed

text \<open>
  C9, at a cache file that was cut in the middle of a character. \<^verbatim>\<open>load_json\<close> returns
  the default when the path is absent and when the file holds text that is not JSON
  (the lemmas above). It does not when the bytes of the file are not UTF-8: the read
  raises \<^verbatim>\<open>UnicodeDecodeError\<close>, which the handler for
  \<^verbatim>\<open>json.JSONDecodeError\<close> does not catch. The exception leaves \<^verbatim>\<open>load_json\<close> and
  \<^verbatim>\<open>main\<close>: the run ends before the first record is looked at, where the run on an
  empty cache would have resolved it. The Harvester's resume code of lines 53-59 has
  the same handler and raises in the same way on such a record file.
\<close>

theorem undecodable_store_raises:
  "\<not> utf8_valid cut_cache
   \<and> load_json (loads_cache demo_lib) (files undecodable_world) CACHE_JSON []
       = Inl UnicodeDecodeError
   \<and> main demo_lib (\<lambda>h q. Reply 200 (Some found_body)) undecodable_world
       = (Some UnicodeDecodeError, [demo_museum], [], undecodable_world)
   \<and> fst (main demo_lib (\<lambda>h q. Reply 200 (Some found_body)) demo_world) = None
   \<and> resume_load demo_lib [output_file \<mapsto> cut_cache] = Inl UnicodeDecodeError"
  by (simp add: main_def load_json_def read_json_def resume_load_def cut_cache_def
      undecodable_world_def demo_world_def demo_simps)

section \<open>Properties of the Harvester\<close>

subsection \<open>The "Laad meer" loop\<close>

lemma load_more_loop_returns:
  assumes "load_more_loop browser n w = Some y"
  shows "\<exists>k. browser (n + k) = NoSuchElement \<or> (\<exists>e. browser (n + k) = Crashed e)"
proof (rule load_more_loop.raw_induct[where
      P = "\<lambda>b n w y. \<exists>k. b (n + k) = NoSuchElement \<or> (\<exists>e. b (n + k) = Crashed e)",
      OF _ assms])
  fix loop :: "(nat \<Rightarrow> click_outcome) \<Rightarrow> nat \<Rightarrow> world \<Rightarrow> (py_error option \<times> nat \<times> world) option"
    and b :: "nat \<Rightarrow> click_outcome" and m :: nat and v :: world
    and r :: "py_error option \<times> nat \<times> world"
  assume ih: "\<And>b n w y. loop b n w = Some y \<Longrightarrow>
                \<exists>k. b (n + k) = NoSuchElement \<or> (\<exists>e. b (n + k) = Crashed e)"
    and step: "(case b m of
                  Clicked \<Rightarrow> loop b (Suc m) (sleep 3 v)
                | NoSuchElement \<Rightarrow> Some (None, m, v)
                | ClickIntercepted \<Rightarrow> loop b (Suc m) (sleep 2 v)
                | Crashed e \<Rightarrow> Some (Some e, m, v)) = Some r"
  show "\<exists>k. b (m + k) = NoSuchElement \<or> (\<exists>e. b (m + k) = Crashed e)"
  proof (cases "b m")
    case Clicked
    with step have "loop b (Suc m) (sleep 3 v) = Some r" by simp
    from ih[OF this] obtain k where
      "b (Suc m + k) = NoSuchElement \<or> (\<exists>e. b (Suc m + k) = Crashed e)" by blast
    then have "b (m + Suc k) = NoSuchElement \<or> (\<exists>e. b (m + Suc k) = Crashed e)" by simp
    then show ?thesis by blast
  next
    case NoSuchElement
    then have "b (m + 0) = NoSuchElement" by simp
    then show ?thesis by blast
  next
    case ClickIntercepted
    with step have "loop b (Suc m) (sleep 2 v) = Some r" by simp
    from ih[OF this] obtain k where
      "b (Suc m + k) = NoSuchElement \<or> (\<exists>e. b (Suc m + k) = Crashed e)" by blast
    then have "b (m + Suc k) = NoSuchElement \<or> (\<exists>e. b (m + Suc k) = Crashed e)" by simp
    then show ?thesis by blast
  next
    case (Crashed e)
    then have "\<exists>e. b (m + 0) = Crashed e" by simp
    then show ?thesis by blast
  qed
qed

lemma load_more_loop_diverges:
  assumes "\<forall>k. browser (n + k) = Clicked \<or> browser (n + k) = ClickIntercepted"
  shows "load_more_loop browser n w = None"
proof (cases "load_more_loop browser n w")
  case None
  then show ?thesis .
next
  case (Some y)
  from load_more_loop_returns[OF Some] obtain k where
    "browser (n + k) = NoSuchElement \<or> (\<exists>e. browser (n + k) = Crashed e)" by blast
  with assms[rule_format, of k] show ?thesis by auto
qed

lemma load_more_loop_retries:
  assumes "\<forall>j<d. browser (n + j) = ClickIntercepted" and "browser (n + d) = NoSuchElement"
  shows "load_more_loop browser n w
           = Some (None, n + d, w\<lparr>events := events w @ replicate d (Sleep 2)\<rparr>)"
  using assms
proof (induction d arbitrary: n w)
  case 0
  then show ?case by (subst load_more_loop.simps) simp
next
  case (Suc d)
  from Suc.prems(1) have first: "browser n = ClickIntercepted" by force
  have rest: "\<forall>j<d. browser (Suc n + j) = ClickIntercepted"
    using Suc.prems(1) by (metis Suc_less_eq add_Suc_shift)
  have last: "browser (Suc n + d) = NoSuchElement" using Suc.prems(2) by simp
  have "load_more_loop browser n w = load_more_loop browser (Suc n) (sleep 2 w)"
    by (subst load_more_loop.simps) (simp add: first)
  also have "\<dots> = Some (None, Suc n + d,
                 (sleep 2 w)\<lparr>events := events (sleep 2 w) @ replicate d (Sleep 2)\<rparr>)"
    by (rule Suc.IH[OF rest last])
  finally show ?case by (simp add: sleep_def replicate_app_Cons_same)
qed

text \<open>
  The loop of lines 32-45 on a browser in which the click is obstructed on every pass:
  it never returns.
\<close>

theorem always_obstructed_counterexample:
  "load_more_loop (\<lambda>k. ClickIntercepted) 0 empty_world = None"
  by (rule load_more_loop_diverges) simp

text \<open>
  C7, as the loop is written. An obstructed click is retried after a sleep of two
  seconds, and nothing counts the retries: for every number \<open>d\<close>, after \<open>d\<close> obstructed
  passes in a row followed by a pass that finds the button gone, the loop returns
  after exactly \<open>d\<close> retries. When the click is obstructed on every pass (or, in
  general, when every pass either clicks or is obstructed) the loop does not
  terminate; it returns only if some pass finds the button gone or raises another
  exception.
\<close>

theorem load_more_retries_unbounded:
  "((\<forall>j<d. browser (n + j) = ClickIntercepted) \<and> browser (n + d) = NoSuchElement
      \<longrightarrow> load_more_loop browser n w
            = Some (None, n + d, w\<lparr>events := events w @ replicate d (Sleep 2)\<rparr>))
   \<and> ((\<forall>k. browser (n + k) = ClickIntercepted) \<longrightarrow> load_more_loop browser n w = None)
   \<and> ((\<forall>k. browser (n + k) = Clicked \<or> browser (n + k) = ClickIntercepted)
      \<longrightarrow> load_more_loop browser n w = None)
   \<and> (load_more_loop browser n w \<noteq> None
      \<longrightarrow> (\<exists>k. browser (n + k) = NoSuchElement \<or> (\<exists>e. browser (n + k) = Crashed e)))"
proof (intro conjI impI)
  show "load_more_loop browser n w
            = Some (None, n + d, w\<lparr>events := events w @ replicate d (Sleep 2)\<rparr>)"
    if "(\<forall>j<d. browser (n + j) = ClickIntercepted) \<and> browser (n + d) = NoSuchElement"
    using that by (intro load_more_loop_retries) auto
  show "load_more_loop browser n w = None" if "\<forall>k. browser (n + k) = ClickIntercepted"
    using that by (intro load_more_loop_diverges) auto
  show "load_more_loop browser n w = None"
    if "\<forall>k. browser (n + k) = Clicked \<or> browser (n + k) = ClickIntercepted"
    using that by (rule load_more_loop_diverges)
  show "\<exists>k. browser (n + k) = NoSuchElement \<or> (\<exists>e. browser (n + k) = Crashed e)"
    if "load_more_loop browser n w \<noteq> None"
    using that load_more_loop_returns[of browser n w] by auto
qed

theorem load_more_retries_unbounded_witness:
  "load_more_loop obstructed_five 0 empty_world
     = Some (None, 5,
         \<lparr>files = Map.empty, events = [Sleep 2, Sleep 2, Sleep 2, Sleep 2, Sleep 2]\<rparr>)
   \<and> obstructed_five 5 = NoSuchElement
   \<and> load_more_loop (\<lambda>k. ClickIntercepted) 3 empty_world = None"
proof -
  have "(\<forall>j<5. obstructed_five (0 + j) = ClickIntercepted)
          \<and> obstructed_five (0 + 5) = NoSuchElement"
    by (simp add: obstructed_five_def)
  with load_more_retries_unbounded[of 5 obstructed_five 0 empty_world]
  have a: "load_more_loop obstructed_five 0 empty_world
     = Some (None, 0 + 5, empty_world\<lparr>events := events empty_world @ replicate 5 (Sleep 2)\<rparr>)"
    by blast
  have b: "load_more_loop (\<lambda>k. ClickIntercepted) 3 empty_world = None"
    using load_more_retries_unbounded[of 0 "\<lambda>k. ClickIntercepted" 3 empty_world] by simp
  show ?thesis
    using a b by (simp add: empty_world_def obstructed_five_def eval_nat_numeral)
qed

subsection \<open>The loop over the cards\<close>









end
